theory Spec2Isabelle
  imports Main "HOL-Library.Word" "HOL-Library.Signed_Division"
begin

section \<open>FPGA image pipeline simulator: embedding of megaproject.cpp\<close>

text \<open>
  The C++ \<^verbatim>\<open>int\<close> is modelled by \<^typ>\<open>int\<close>. Every value the filters compute from
  8-bit channels stays far inside the 32-bit range (at most \<open>255 * 256\<close>), and
  for a well-formed image the linear address \<open>y * width + x\<close> is below
  \<open>width * height\<close>. The one product that can leave the 32-bit range is the array
  size \<open>width * height\<close> of the two constructors, whose arguments nothing
  validates: it is modelled with its wrap-around (\<open>int32_mul\<close> below). A \<^verbatim>\<open>uint8_t\<close> is an \<open>8 word\<close>; its promotion to \<^verbatim>\<open>int\<close> is \<^const>\<open>uint\<close>
  and the cast \<^verbatim>\<open>(uint8_t)val\<close> is \<^const>\<open>word_of_int\<close>.
\<close>

type_synonym u8 = "8 word"

subsection \<open>Module 2: HardwareMath\<close>

text \<open>
  \<^verbatim>\<open>toFixed\<close> takes a \<^verbatim>\<open>double\<close> and is called nowhere; it is left out.
  \<^verbatim>\<open>i >> 8\<close> on \<^verbatim>\<open>int\<close> is \<open>drop_bit 8\<close>, the floor of \<open>i / 256\<close>.
\<close>

definition fromFixed :: "int \<Rightarrow> int" where
  "fromFixed i = drop_bit 8 i"

definition clamp :: "int \<Rightarrow> u8" where
  "clamp val = (if val < 0 then 0 else if val > 255 then 255 else word_of_int val)"

subsection \<open>Module 3: Pixel and Image\<close>

record Pixel =
  r :: u8
  g :: u8
  b :: u8

record Image =
  width :: int
  height :: int
  data :: "Pixel list"

text \<open>
  The size of the block that both constructors allocate is the \<^verbatim>\<open>int\<close> product
  \<^verbatim>\<open>width * height\<close>: the two's-complement 32-bit product that the compiled
  program computes (beyond the range the C++ standard leaves it undefined).
  \<^verbatim>\<open>new Pixel[n]\<close> with a negative \<open>n\<close> throws \<^verbatim>\<open>std::bad_array_new_length\<close>.
\<close>

datatype error = bad_array_new_length

definition INT_MAX :: int where
  "INT_MAX = 2147483647"

definition int32_mul :: "int \<Rightarrow> int \<Rightarrow> int" where
  "int32_mul a c = sint (word_of_int a * word_of_int c :: 32 word)"

text \<open>
  \<^verbatim>\<open>Image(int w, int h)\<close> runs \<^verbatim>\<open>new Pixel[width * height]\<close>: the block is not
  initialised, so its pixels are whatever the memory held. That prior content
  is the parameter \<open>mem\<close> (the pixel found at each offset of the block).
\<close>

definition Image_new :: "int \<Rightarrow> int \<Rightarrow> (nat \<Rightarrow> Pixel) \<Rightarrow> error + Image" where
  "Image_new w h mem =
     (if int32_mul w h < 0 then Inl bad_array_new_length
      else Inr \<lparr>width = w, height = h, data = map mem [0..<nat (int32_mul w h)]\<rparr>)"

text \<open>
  The copy constructor: a block of \<^verbatim>\<open>width * height\<close> pixels, filled by the index
  loop \<^verbatim>\<open>for (int i = 0; i < width * height; i++)\<close>.
\<close>

definition Image_copy :: "Image \<Rightarrow> error + Image" where
  "Image_copy other =
     (if int32_mul (width other) (height other) < 0 then Inl bad_array_new_length
      else Inr \<lparr>width = width other, height = height other,
                data = map (\<lambda>i. data other ! i)
                           [0..<nat (int32_mul (width other) (height other))]\<rparr>)"

definition getPixel :: "Image \<Rightarrow> int \<Rightarrow> int \<Rightarrow> Pixel" where
  "getPixel img x y =
     (if x < 0 \<or> x \<ge> width img \<or> y < 0 \<or> y \<ge> height img then \<lparr>r = 0, g = 0, b = 0\<rparr>
      else data img ! nat (y * width img + x))"

definition setPixel :: "Image \<Rightarrow> int \<Rightarrow> int \<Rightarrow> Pixel \<Rightarrow> Image" where
  "setPixel img x y p =
     (if x \<ge> 0 \<and> x < width img \<and> y \<ge> 0 \<and> y < height img
      then img\<lparr>data := (data img)[nat (y * width img + x) := p]\<rparr>
      else img)"

text \<open>
  A well-formed image: non-negative dimensions and a block of exactly
  \<open>width * height\<close> pixels. The constructors establish it when the product is
  at most \<open>INT_MAX\<close>; beyond that the block they allocate is shorter.
\<close>

definition Image_wf :: "Image \<Rightarrow> bool" where
  "Image_wf img \<longleftrightarrow>
     0 \<le> width img \<and> 0 \<le> height img \<and> length (data img) = nat (width img * height img)"

text \<open>
  What both constructors establish in every case in which they return: a block
  of as many pixels as the 32-bit product says.
\<close>

definition Image_built :: "Image \<Rightarrow> bool" where
  "Image_built img \<longleftrightarrow>
     0 \<le> int32_mul (width img) (height img)
     \<and> length (data img) = nat (int32_mul (width img) (height img))"

text \<open>
  The access of \<^const>\<open>getPixel\<close> and \<^const>\<open>setPixel\<close> at \<open>(x, y)\<close> leaves the block: the
  coordinate passes their bounds check and the address \<open>y * width + x\<close> is not
  an offset of the block (undefined behaviour in C++, a read or write of
  foreign memory).
\<close>

definition block_fault :: "Image \<Rightarrow> int \<Rightarrow> int \<Rightarrow> bool" where
  "block_fault img x y \<longleftrightarrow>
     x \<ge> 0 \<and> x < width img \<and> y \<ge> 0 \<and> y < height img
     \<and> \<not> nat (y * width img + x) < length (data img)"

subsection \<open>The grayscale intensity of line 210\<close>

definition gray_intensity :: "Pixel \<Rightarrow> int" where
  "gray_intensity p = drop_bit 8 (uint (r p) * 77 + uint (g p) * 150 + uint (b p) * 29)"

subsection \<open>The store: objects reached through pointers\<close>

text \<open>
  Filters and the pipeline work on \<^verbatim>\<open>Image*\<close>. A pointer is an address; the
  store maps the addresses of live objects to their value. \<^verbatim>\<open>new\<close> takes
  the next unused address, \<^verbatim>\<open>delete\<close> removes the object. Dereferencing an
  address without an object is undefined behaviour in C++ and unspecified
  here (\<^const>\<open>the\<close>); the theorems below assume the pointers they use are live.
\<close>

type_synonym addr = nat

record store =
  objs :: "addr \<Rightarrow> Image option"
  next_addr :: addr

definition store_ok :: "store \<Rightarrow> bool" where
  "store_ok s \<longleftrightarrow> (\<forall>a. next_addr s \<le> a \<longrightarrow> objs s a = None)"

definition new_Image :: "Image \<Rightarrow> store \<Rightarrow> addr \<times> store" where
  "new_Image img s =
     (next_addr s, s\<lparr>objs := (objs s)(next_addr s \<mapsto> img), next_addr := Suc (next_addr s)\<rparr>)"

definition delete_Image :: "addr \<Rightarrow> store \<Rightarrow> store" where
  "delete_Image p s = s\<lparr>objs := (objs s)(p := None)\<rparr>"

definition deref :: "store \<Rightarrow> addr \<Rightarrow> Image" where
  "deref s p = the (objs s p)"

definition ptr_getWidth :: "store \<Rightarrow> addr \<Rightarrow> int" where
  "ptr_getWidth s p = width (deref s p)"

definition ptr_getHeight :: "store \<Rightarrow> addr \<Rightarrow> int" where
  "ptr_getHeight s p = height (deref s p)"

definition ptr_getPixel :: "store \<Rightarrow> addr \<Rightarrow> int \<Rightarrow> int \<Rightarrow> Pixel" where
  "ptr_getPixel s p x y = getPixel (deref s p) x y"

definition ptr_setPixel :: "addr \<Rightarrow> int \<Rightarrow> int \<Rightarrow> Pixel \<Rightarrow> store \<Rightarrow> store" where
  "ptr_setPixel p x y px s = s\<lparr>objs := (objs s)(p \<mapsto> setPixel (deref s p) x y px)\<rparr>"

subsection \<open>Counting loops\<close>

text \<open>
  \<^verbatim>\<open>for (int i = i0; i < n; i++) body\<close>, the state threaded through the body.
  The C++ loops read their bound (\<^verbatim>\<open>src->getHeight()\<close>) at every test; no
  statement of any loop body changes a width or a height (\<^const>\<open>setPixel\<close> writes
  \<^const>\<open>data\<close> only), so the bound is read once, at loop entry.
\<close>

function for_loop :: "int \<Rightarrow> int \<Rightarrow> (int \<Rightarrow> 's \<Rightarrow> 's) \<Rightarrow> 's \<Rightarrow> 's" where
  "for_loop i n body s = (if i < n then for_loop (i + 1) n body (body i s) else s)"
  by pat_completeness auto
termination
  by (relation "measure (\<lambda>(i, n, body, s). nat (n - i))") auto

declare for_loop.simps [simp del]

subsection \<open>Module 5: the filters\<close>

datatype Filter = GrayscaleFilter | BlurFilter | SobelFilter

fun getName :: "Filter \<Rightarrow> string" where
  "getName GrayscaleFilter = ''Grayscale Converter''"
| "getName BlurFilter = ''Gaussian Blur (3x3)''"
| "getName SobelFilter = ''Sobel Edge Detector''"

definition GrayscaleFilter_apply :: "addr \<Rightarrow> addr \<Rightarrow> store \<Rightarrow> store" where
  "GrayscaleFilter_apply src dest s0 =
     for_loop 0 (ptr_getHeight s0 src) (\<lambda>y s1.
       for_loop 0 (ptr_getWidth s1 src) (\<lambda>x s.
         let p = ptr_getPixel s src x y;
             gray = gray_intensity p;
             val = clamp gray
         in ptr_setPixel dest x y \<lparr>r = val, g = val, b = val\<rparr> s) s1) s0"

definition kernel :: "int list list" where
  "kernel = [[1, 2, 1], [2, 4, 2], [1, 2, 1]]"

definition divisor :: int where
  "divisor = 16"

text \<open>
  The convolution loop of the blur, started at \<open>sum = 0\<close> (\<^verbatim>\<open>ky <= 1\<close> is \<open>ky < 2\<close>).
  It only reads; \<open>img\<close> is the object \<^verbatim>\<open>*src\<close> at the time of the loop.
\<close>

definition blur_sum :: "Image \<Rightarrow> int \<Rightarrow> int \<Rightarrow> int" where
  "blur_sum img x y =
     for_loop (- 1) 2 (\<lambda>ky sum1.
       for_loop (- 1) 2 (\<lambda>kx sum.
         let p = getPixel img (x + kx) (y + ky)
         in sum + uint (r p) * kernel ! nat (ky + 1) ! nat (kx + 1)) sum1) 0"

text \<open>\<^verbatim>\<open>sum / divisor\<close> is C++ division, truncating towards zero: \<open>sdiv\<close>.\<close>

definition BlurFilter_apply :: "addr \<Rightarrow> addr \<Rightarrow> store \<Rightarrow> store" where
  "BlurFilter_apply src dest s0 =
     for_loop 0 (ptr_getHeight s0 src) (\<lambda>y s1.
       for_loop 0 (ptr_getWidth s1 src) (\<lambda>x s.
         let sum = blur_sum (deref s src) x y;
             val = clamp (sum sdiv divisor)
         in ptr_setPixel dest x y \<lparr>r = val, g = val, b = val\<rparr> s) s1) s0"

definition gx :: "int list list" where
  "gx = [[- 1, 0, 1], [- 2, 0, 2], [- 1, 0, 1]]"

definition gy :: "int list list" where
  "gy = [[- 1, - 2, - 1], [0, 0, 0], [1, 2, 1]]"

text \<open>
  The gradient loop of the Sobel filter on the pair \<open>(sumX, sumY)\<close>, started at \<open>(0, 0)\<close>;
  it only reads \<^verbatim>\<open>*src\<close>, here \<open>img\<close>.
\<close>

definition sobel_sums :: "Image \<Rightarrow> int \<Rightarrow> int \<Rightarrow> int \<times> int" where
  "sobel_sums img x y =
     for_loop (- 1) 2 (\<lambda>i acc1.
       for_loop (- 1) 2 (\<lambda>j (sumX, sumY).
         let val = uint (r (getPixel img (x + j) (y + i)))
         in (sumX + val * gx ! nat (i + 1) ! nat (j + 1),
             sumY + val * gy ! nat (i + 1) ! nat (j + 1))) acc1) (0, 0)"

definition SobelFilter_apply :: "addr \<Rightarrow> addr \<Rightarrow> store \<Rightarrow> store" where
  "SobelFilter_apply src dest s0 =
     for_loop 1 (ptr_getHeight s0 src - 1) (\<lambda>y s1.
       for_loop 1 (ptr_getWidth s1 src - 1) (\<lambda>x s.
         let (sumX, sumY) = sobel_sums (deref s src) x y;
             mag = \<bar>sumX\<bar> + \<bar>sumY\<bar>;
             final = clamp mag
         in ptr_setPixel dest x y \<lparr>r = final, g = final, b = final\<rparr> s) s1) s0"

text \<open>The virtual call \<^verbatim>\<open>filter->apply(src, dest)\<close>.\<close>

fun Filter_apply :: "Filter \<Rightarrow> addr \<Rightarrow> addr \<Rightarrow> store \<Rightarrow> store" where
  "Filter_apply GrayscaleFilter src dest s = GrayscaleFilter_apply src dest s"
| "Filter_apply BlurFilter src dest s = BlurFilter_apply src dest s"
| "Filter_apply SobelFilter src dest s = SobelFilter_apply src dest s"

subsection \<open>Module 6: the pipeline\<close>

record Pipeline =
  stages :: "Filter list"
  workingBuffer :: addr

definition Pipeline_new :: "addr \<Rightarrow> store \<Rightarrow> error + Pipeline \<times> store" where
  "Pipeline_new input s =
     (case Image_copy (deref s input) of
        Inl e \<Rightarrow> Inl e
      | Inr cp \<Rightarrow>
          (let (w, s') = new_Image cp s
           in Inr (\<lparr>stages = [], workingBuffer = w\<rparr>, s')))"

definition addStage :: "Filter \<Rightarrow> Pipeline \<Rightarrow> Pipeline" where
  "addStage f pl = pl\<lparr>stages := stages pl @ [f]\<rparr>"

text \<open>
  The range-for of \<^verbatim>\<open>execute\<close> on the two pointers \<open>wb\<close> (workingBuffer) and \<open>bb\<close>
  (backBuffer): apply the stage from \<open>wb\<close> into \<open>bb\<close>, then exchange the pointers. The log
  lines and the debug frame written after the exchange only read the store.
\<close>

fun execute_stages :: "Filter list \<Rightarrow> addr \<Rightarrow> addr \<Rightarrow> store \<Rightarrow> addr \<times> addr \<times> store" where
  "execute_stages [] wb bb s = (wb, bb, s)"
| "execute_stages (f # rest) wb bb s = execute_stages rest bb wb (Filter_apply f wb bb s)"

text \<open>\<open>mem\<close> is the prior content of the block that the back buffer's constructor allocates.\<close>

definition execute :: "(nat \<Rightarrow> Pixel) \<Rightarrow> Pipeline \<Rightarrow> store \<Rightarrow> error + Pipeline \<times> store" where
  "execute mem pl s =
     (case Image_new (ptr_getWidth s (workingBuffer pl))
                     (ptr_getHeight s (workingBuffer pl)) mem of
        Inl e \<Rightarrow> Inl e
      | Inr bimg \<Rightarrow>
          (let (backBuffer, s1) = new_Image bimg s;
               (wb, bb, s2) = execute_stages (stages pl) (workingBuffer pl) backBuffer s1
           in Inr (pl\<lparr>workingBuffer := wb\<rparr>, delete_Image bb s2)))"

definition getResult :: "Pipeline \<Rightarrow> addr" where
  "getResult pl = workingBuffer pl"

subsection \<open>Closed forms for the proofs\<close>

text \<open>
  \<open>paint W F img\<close> is \<open>img\<close> with the pixel at every coordinate \<open>(x, y)\<close> of its
  block that satisfies \<open>W\<close> replaced by \<open>F x y\<close>: what a raster of
  \<^const>\<open>setPixel\<close> calls leaves behind. \<open>store_put\<close> replaces one object of the store.
\<close>

definition paint :: "(int \<Rightarrow> int \<Rightarrow> bool) \<Rightarrow> (int \<Rightarrow> int \<Rightarrow> Pixel) \<Rightarrow> Image \<Rightarrow> Image" where
  "paint W F img =
     img\<lparr>data := map (\<lambda>i. if W (int i mod width img) (int i div width img)
                            then F (int i mod width img) (int i div width img)
                            else data img ! i) [0..<length (data img)]\<rparr>"

definition store_put :: "addr \<Rightarrow> Image \<Rightarrow> store \<Rightarrow> store" where
  "store_put p img s = s\<lparr>objs := (objs s)(p \<mapsto> img)\<rparr>"

text \<open>
  \<open>stage_writes\<close>, \<open>stage_pixel\<close>: the coordinates that a filter's two loops visit
  and the pixel its loop body hands to \<^const>\<open>setPixel\<close> there, read off the three
  \<open>apply\<close> bodies; \<open>stage_result\<close> is the destination they leave.
\<close>

definition gray_px :: "u8 \<Rightarrow> Pixel" where
  "gray_px v = \<lparr>r = v, g = v, b = v\<rparr>"

fun stage_writes :: "Filter \<Rightarrow> Image \<Rightarrow> int \<Rightarrow> int \<Rightarrow> bool" where
  "stage_writes GrayscaleFilter simg x y \<longleftrightarrow> 0 \<le> y \<and> y < height simg \<and> 0 \<le> x \<and> x < width simg"
| "stage_writes BlurFilter simg x y \<longleftrightarrow> 0 \<le> y \<and> y < height simg \<and> 0 \<le> x \<and> x < width simg"
| "stage_writes SobelFilter simg x y \<longleftrightarrow>
     1 \<le> y \<and> y < height simg - 1 \<and> 1 \<le> x \<and> x < width simg - 1"

fun stage_pixel :: "Filter \<Rightarrow> Image \<Rightarrow> int \<Rightarrow> int \<Rightarrow> Pixel" where
  "stage_pixel GrayscaleFilter simg x y = gray_px (clamp (gray_intensity (getPixel simg x y)))"
| "stage_pixel BlurFilter simg x y = gray_px (clamp (blur_sum simg x y sdiv divisor))"
| "stage_pixel SobelFilter simg x y =
     gray_px (clamp (\<bar>fst (sobel_sums simg x y)\<bar> + \<bar>snd (sobel_sums simg x y)\<bar>))"

definition stage_result :: "Filter \<Rightarrow> Image \<Rightarrow> Image \<Rightarrow> Image" where
  "stage_result f simg dimg = paint (stage_writes f simg) (stage_pixel f simg) dimg"

subsection \<open>Preconditions\<close>

text \<open>
  The contract of \<open>apply(src, dest)\<close>: two different live buffers, both
  well-formed, of identical dimensions.
\<close>

definition two_buffers :: "store \<Rightarrow> addr \<Rightarrow> addr \<Rightarrow> bool" where
  "two_buffers s src dest \<longleftrightarrow>
     src \<noteq> dest \<and>
     (case (objs s src, objs s dest) of
        (Some simg, Some dimg) \<Rightarrow>
          Image_wf simg \<and> Image_wf dimg \<and> width dimg = width simg \<and> height dimg = height simg
      | _ \<Rightarrow> False)"

text \<open>A uniform-colour buffer: every pixel of the block is \<open>c\<close>.\<close>

definition uniform :: "Pixel \<Rightarrow> Image \<Rightarrow> bool" where
  "uniform c img \<longleftrightarrow> (\<forall>p \<in> set (data img). p = c)"

subsection \<open>Example buffers\<close>

definition white :: Pixel where "white = \<lparr>r = 255, g = 255, b = 255\<rparr>"

definition black :: Pixel where "black = \<lparr>r = 0, g = 0, b = 0\<rparr>"

definition tint :: Pixel where "tint = \<lparr>r = 10, g = 200, b = 30\<rparr>"

definition white3 :: Image where
  "white3 = \<lparr>width = 3, height = 3, data = replicate 9 white\<rparr>"

definition black3 :: Image where
  "black3 = \<lparr>width = 3, height = 3, data = replicate 9 black\<rparr>"

definition tint3 :: Image where
  "tint3 = \<lparr>width = 3, height = 3, data = replicate 9 tint\<rparr>"

text \<open>A store with two objects: \<open>a\<close> at address 0 and \<open>c\<close> at address 1.\<close>

definition store2 :: "Image \<Rightarrow> Image \<Rightarrow> store" where
  "store2 a c = \<lparr>objs = [0 \<mapsto> a, 1 \<mapsto> c], next_addr = 2\<rparr>"

text \<open>A memory block whose previous owner left white pixels in it.\<close>

definition white_mem :: "nat \<Rightarrow> Pixel" where
  "white_mem i = white"

text \<open>
  The store when the pipeline of \<open>main\<close> (grayscale, blur, Sobel) reaches its
  third stage on the white image: working buffer at 0, zero-filled back
  buffer at 1, grayscale from 0 into 1, blur from 1 into 0.
\<close>

definition before_sobel :: store where
  "before_sobel = BlurFilter_apply 1 0 (GrayscaleFilter_apply 0 1 (store2 white3 black3))"

subsection \<open>The calls of \<open>main\<close> on a pipeline\<close>

text \<open>
  Lines 360 to 371 of \<open>main\<close>: construct the pipeline from the input, append
  the stages, execute, take the result pointer. An exception of a constructor
  ends the run.
\<close>

definition run_pipeline ::
  "(nat \<Rightarrow> Pixel) \<Rightarrow> Filter list \<Rightarrow> addr \<Rightarrow> store \<Rightarrow> error + addr \<times> store" where
  "run_pipeline mem fs input s =
     (case Pipeline_new input s of
        Inl e \<Rightarrow> Inl e
      | Inr (pl, s1) \<Rightarrow>
          (case execute mem (fold addStage fs pl) s1 of
             Inl e \<Rightarrow> Inl e
           | Inr (pl2, s2) \<Rightarrow> Inr (getResult pl2, s2)))"

text \<open>The result pointer and the final store of a run that returned.\<close>

definition result_ptr :: "error + addr \<times> store \<Rightarrow> addr" where
  "result_ptr run = fst (projr run)"

definition result_store :: "error + addr \<times> store \<Rightarrow> store" where
  "result_store run = snd (projr run)"

text \<open>
  The block of a new image when the product did not wrap: \<open>width * height\<close>
  pixels of the prior memory content.
\<close>

definition raw_image :: "int \<Rightarrow> int \<Rightarrow> (nat \<Rightarrow> Pixel) \<Rightarrow> Image" where
  "raw_image w h mem = \<lparr>width = w, height = h, data = map mem [0..<nat (w * h)]\<rparr>"

text \<open>
  The two buffers of \<^const>\<open>execute_stages\<close> as values: the working image and the
  back image after the stages, each stage leaving its \<^const>\<open>stage_result\<close> in
  the back image before the exchange.
\<close>

fun run_images :: "Filter list \<Rightarrow> Image \<Rightarrow> Image \<Rightarrow> Image \<times> Image" where
  "run_images [] wimg bimg = (wimg, bimg)"
| "run_images (f # rest) wimg bimg = run_images rest (stage_result f wimg bimg) wimg"

text \<open>The interior coordinates, \<open>x\<close> in \<open>[1, width - 2]\<close> and \<open>y\<close> in \<open>[1, height - 2]\<close>.\<close>

definition interior :: "Image \<Rightarrow> int \<Rightarrow> int \<Rightarrow> bool" where
  "interior img x y \<longleftrightarrow> 1 \<le> x \<and> x \<le> width img - 2 \<and> 1 \<le> y \<and> y \<le> height img - 2"

subsection \<open>The specification's pipeline\<close>

text \<open>
  The reading of the specification: each stage is a transform of its source
  alone, into a fresh destination whose pixels are all \<open>(0,0,0)\<close>; the pipeline
  result is the composition of the transforms in append order.
\<close>

definition spec_gray_value :: "Pixel \<Rightarrow> int" where
  "spec_gray_value p = (uint (r p) * 77 + uint (g p) * 150 + uint (b p) * 29) div 2 ^ 8"

definition spec_blur_value :: "Image \<Rightarrow> int \<Rightarrow> int \<Rightarrow> int" where
  "spec_blur_value src x y =
     (\<Sum>ky\<leftarrow>[- 1, 0, 1]. \<Sum>kx\<leftarrow>[- 1, 0, 1].
        kernel ! nat (ky + 1) ! nat (kx + 1) * uint (r (getPixel src (x + kx) (y + ky)))) div 16"

definition spec_sobel_value :: "Image \<Rightarrow> int \<Rightarrow> int \<Rightarrow> int" where
  "spec_sobel_value src x y =
     \<bar>\<Sum>ky\<leftarrow>[- 1, 0, 1]. \<Sum>kx\<leftarrow>[- 1, 0, 1].
        gx ! nat (ky + 1) ! nat (kx + 1) * uint (r (getPixel src (x + kx) (y + ky)))\<bar>
     + \<bar>\<Sum>ky\<leftarrow>[- 1, 0, 1]. \<Sum>kx\<leftarrow>[- 1, 0, 1].
        gy ! nat (ky + 1) ! nat (kx + 1) * uint (r (getPixel src (x + kx) (y + ky)))\<bar>"

fun spec_pixel :: "Filter \<Rightarrow> Image \<Rightarrow> int \<Rightarrow> int \<Rightarrow> Pixel" where
  "spec_pixel GrayscaleFilter src x y = gray_px (clamp (spec_gray_value (getPixel src x y)))"
| "spec_pixel BlurFilter src x y = gray_px (clamp (spec_blur_value src x y))"
| "spec_pixel SobelFilter src x y =
     (if 1 \<le> x \<and> x \<le> width src - 2 \<and> 1 \<le> y \<and> y \<le> height src - 2
      then gray_px (clamp (spec_sobel_value src x y))
      else \<lparr>r = 0, g = 0, b = 0\<rparr>)"

definition spec_stage :: "Filter \<Rightarrow> Image \<Rightarrow> Image" where
  "spec_stage f src =
     \<lparr>width = width src, height = height src,
      data = map (\<lambda>i. spec_pixel f src (int i mod width src) (int i div width src))
                 [0..<nat (width src * height src)]\<rparr>"

definition spec_pipeline :: "Filter list \<Rightarrow> Image \<Rightarrow> Image" where
  "spec_pipeline fs img = foldl (\<lambda>im f. spec_stage f im) img fs"

subsection \<open>Example pipelines\<close>

text \<open>The caller's store: the input image at address 0, nothing else.\<close>

definition input_store :: "Image \<Rightarrow> store" where
  "input_store img = \<lparr>objs = [0 \<mapsto> img], next_addr = 1\<rparr>"

definition zero_mem :: "nat \<Rightarrow> Pixel" where
  "zero_mem i = \<lparr>r = 0, g = 0, b = 0\<rparr>"

definition main_stages :: "Filter list" where
  "main_stages = [GrayscaleFilter, BlurFilter, SobelFilter]"

text \<open>
  The image that \<^verbatim>\<open>new Image(65536, 65537)\<close> builds, as \<^verbatim>\<open>loadPPM\<close> does for a
  file with that header: the 32-bit product of the dimensions is 65536.
\<close>

definition wide :: Image where
  "wide = projr (Image_new 65536 65537 zero_mem)"

text \<open>A gray ramp, 16 to 144 in steps of 16, row by row.\<close>

definition ramp3 :: Image where
  "ramp3 = \<lparr>width = 3, height = 3,
     data = [gray_px 16, gray_px 32, gray_px 48, gray_px 64, gray_px 80, gray_px 96,
             gray_px 112, gray_px 128, gray_px 144]\<rparr>"

section \<open>Properties\<close>

subsection \<open>Loops, blocks and rasters\<close>

lemma for_loop_step: "i < n \<Longrightarrow> for_loop i n body s = for_loop (i + 1) n body (body i s)"
  by (subst for_loop.simps) simp

lemma for_loop_done: "\<not> i < n \<Longrightarrow> for_loop i n body s = s"
  by (subst for_loop.simps) simp

lemma for_loop_rule:
  assumes "P i s" and "\<And>j t. i \<le> j \<Longrightarrow> j < n \<Longrightarrow> P j t \<Longrightarrow> P (j + 1) (body j t)" and "i \<le> n"
  shows "P n (for_loop i n body s)"
  using assms
proof (induction i n body s rule: for_loop.induct)
  case (1 i n body s)
  show ?case
  proof (cases "i < n")
    case True
    have "P n (for_loop (i + 1) n body (body i s))"
    proof (rule "1.IH" [OF True])
      show "P (i + 1) (body i s)" using "1.prems" True by simp
      show "\<And>j t. i + 1 \<le> j \<Longrightarrow> j < n \<Longrightarrow> P j t \<Longrightarrow> P (j + 1) (body j t)"
        using "1.prems"(2) by simp
      show "i + 1 \<le> n" using True by simp
    qed
    then show ?thesis using True by (simp add: for_loop_step)
  next
    case False
    then have "i = n" using "1.prems"(3) by simp
    then show ?thesis using "1.prems"(1) False by (simp add: for_loop_done)
  qed
qed

lemma paint_shape [simp]:
  "width (paint W F img) = width img" "height (paint W F img) = height img"
  "length (data (paint W F img)) = length (data img)"
  by (simp_all add: paint_def)

lemma paint_wf: "Image_wf img \<Longrightarrow> Image_wf (paint W F img)"
  by (simp add: Image_wf_def)

lemma index_in_block:
  assumes "Image_wf img" "0 \<le> x" "x < width img" "0 \<le> y" "y < height img"
  shows "nat (y * width img + x) < length (data img)"
    and "(y * width img + x) mod width img = x"
    and "(y * width img + x) div width img = y"
    and "0 \<le> y * width img + x"
proof -
  have "y * width img + x < (y + 1) * width img"
    using assms by (simp add: algebra_simps)
  also have "\<dots> \<le> height img * width img"
    using assms by (intro mult_right_mono) simp_all
  finally have lt: "y * width img + x < height img * width img" .
  show "0 \<le> y * width img + x" using assms by simp
  then show "nat (y * width img + x) < length (data img)"
    using lt assms(1) by (simp add: Image_wf_def mult.commute)
  show "(y * width img + x) mod width img = x" using assms by simp
  show "(y * width img + x) div width img = y" using assms by simp
qed

lemma zdiv_lt:
  assumes "(0::int) < w" "i < w * h"
  shows "i div w < h"
proof (rule ccontr)
  assume "\<not> i div w < h"
  then have "h \<le> i div w" by simp
  then have "h * w \<le> (i div w) * w"
    using assms(1) by (intro mult_right_mono) simp_all
  also have "\<dots> \<le> i"
  proof -
    have "(i div w) * w + i mod w = i" by simp
    moreover have "0 \<le> i mod w" using assms(1) by simp
    ultimately show ?thesis by linarith
  qed
  finally show False using assms(2) by (simp add: mult.commute)
qed

lemma coords_of_index:
  assumes "Image_wf img" "i < length (data img)"
  shows "0 \<le> int i mod width img" "int i mod width img < width img"
    "0 \<le> int i div width img" "int i div width img < height img"
    "int i div width img * width img + int i mod width img = int i"
proof -
  have lt: "int i < width img * height img"
    using assms by (simp add: Image_wf_def)
  have wpos: "0 < width img"
  proof (rule ccontr)
    assume "\<not> 0 < width img"
    then have "width img = 0" using assms(1) by (simp add: Image_wf_def)
    then show False using lt by simp
  qed
  show "0 \<le> int i mod width img" "int i mod width img < width img" using wpos by simp_all
  show "0 \<le> int i div width img" using wpos by (simp add: pos_imp_zdiv_nonneg_iff)
  show "int i div width img < height img"
    using lt wpos by (simp add: zdiv_lt)
  show "int i div width img * width img + int i mod width img = int i" by simp
qed

lemma getPixel_paint:
  assumes "Image_wf img"
  shows "getPixel (paint W F img) x y =
     (if 0 \<le> x \<and> x < width img \<and> 0 \<le> y \<and> y < height img
      then (if W x y then F x y else getPixel img x y)
      else \<lparr>r = 0, g = 0, b = 0\<rparr>)"
proof (cases "0 \<le> x \<and> x < width img \<and> 0 \<le> y \<and> y < height img")
  case True
  then have inb: "0 \<le> x" "x < width img" "0 \<le> y" "y < height img" by simp_all
  note ix = index_in_block [OF assms inb]
  have "data (paint W F img) ! nat (y * width img + x) =
        (if W x y then F x y else data img ! nat (y * width img + x))"
    using ix by (simp add: paint_def)
  then show ?thesis using True by (simp add: getPixel_def)
next
  case False
  then show ?thesis by (auto simp: getPixel_def)
qed

lemma paint_cong:
  assumes "Image_wf img"
    and "\<And>x y. 0 \<le> x \<Longrightarrow> x < width img \<Longrightarrow> 0 \<le> y \<Longrightarrow> y < height img \<Longrightarrow>
           W x y = W' x y \<and> (W x y \<longrightarrow> F x y = F' x y)"
  shows "paint W F img = paint W' F' img"
proof -
  have "(if W (int i mod width img) (int i div width img)
           then F (int i mod width img) (int i div width img) else data img ! i) =
        (if W' (int i mod width img) (int i div width img)
           then F' (int i mod width img) (int i div width img) else data img ! i)"
    if "i < length (data img)" for i
    using assms(2) [OF coords_of_index(1-4) [OF assms(1) that]] by simp
  then show ?thesis
    unfolding paint_def by (intro arg_cong [where f = "\<lambda>d. img\<lparr>data := d\<rparr>"] map_cong) simp_all
qed

lemma paint_none: "paint (\<lambda>x y. False) F img = img"
  by (simp add: paint_def map_nth)

lemma paint_paint:
  assumes "Image_wf img"
  shows "paint W2 F2 (paint W1 F1 img) =
         paint (\<lambda>x y. W1 x y \<or> W2 x y) (\<lambda>x y. if W2 x y then F2 x y else F1 x y) img"
  by (simp add: paint_def)

lemma setPixel_paint:
  assumes "Image_wf img"
  shows "setPixel img x y px = paint (\<lambda>x' y'. x' = x \<and> y' = y) (\<lambda>x' y'. px) img"
proof (cases "0 \<le> x \<and> x < width img \<and> 0 \<le> y \<and> y < height img")
  case True
  then have inb: "0 \<le> x" "x < width img" "0 \<le> y" "y < height img" by simp_all
  note ix = index_in_block [OF assms inb]
  have "(data img)[nat (y * width img + x) := px] =
        map (\<lambda>i. if int i mod width img = x \<and> int i div width img = y then px else data img ! i)
            [0..<length (data img)]"
  proof (rule nth_equalityI)
    show "length ((data img)[nat (y * width img + x) := px]) =
          length (map (\<lambda>i. if int i mod width img = x \<and> int i div width img = y then px
                             else data img ! i) [0..<length (data img)])"
      by simp
  next
    fix i assume "i < length ((data img)[nat (y * width img + x) := px])"
    then have i: "i < length (data img)" by simp
    show "(data img)[nat (y * width img + x) := px] ! i =
          map (\<lambda>i. if int i mod width img = x \<and> int i div width img = y then px
                    else data img ! i) [0..<length (data img)] ! i"
    proof (cases "i = nat (y * width img + x)")
      case True
      then show ?thesis using i ix by simp
    next
      case False
      have "\<not> (int i mod width img = x \<and> int i div width img = y)"
      proof
        assume "int i mod width img = x \<and> int i div width img = y"
        then have "int i = y * width img + x"
          using coords_of_index(5) [OF assms i] by simp
        then show False using False by simp
      qed
      then show ?thesis using i False by auto
    qed
  qed
  then show ?thesis using True by (simp add: setPixel_def paint_def)
next
  case False
  have "paint (\<lambda>x' y'. x' = x \<and> y' = y) (\<lambda>x' y'. px) img = paint (\<lambda>x y. False) (\<lambda>x' y'. px) img"
    using False by (intro paint_cong [OF assms]) auto
  then show ?thesis using False by (auto simp: setPixel_def paint_none)
qed

lemma Image_eqI:
  assumes "Image_wf a" "Image_wf c" "width a = width c" "height a = height c"
    and "\<And>x y. 0 \<le> x \<Longrightarrow> x < width a \<Longrightarrow> 0 \<le> y \<Longrightarrow> y < height a \<Longrightarrow>
           getPixel a x y = getPixel c x y"
  shows "a = c"
proof -
  have len: "length (data a) = length (data c)"
    using assms(1-4) by (simp add: Image_wf_def)
  have "data a = data c"
  proof (rule nth_equalityI [OF len])
    fix i assume i: "i < length (data a)"
    note co = coords_of_index [OF assms(1) i]
    have "getPixel a (int i mod width a) (int i div width a) =
          getPixel c (int i mod width a) (int i div width a)"
      by (rule assms(5) [OF co(1-4)])
    then show "data a ! i = data c ! i"
      using co assms(3,4) by (simp add: getPixel_def)
  qed
  then show ?thesis using assms(3,4) by simp
qed

lemma store_put_simps [simp]:
  "objs (store_put p img s) a = (if a = p then Some img else objs s a)"
  "next_addr (store_put p img s) = next_addr s"
  "store_put p img (store_put p img' s) = store_put p img s"
  by (simp_all add: store_put_def)

lemma store_put_same: "objs s p = Some img \<Longrightarrow> store_put p img s = s"
  by (simp add: store_put_def fun_upd_idem)

lemma ptr_setPixel_put: "ptr_setPixel p x y px s = store_put p (setPixel (deref s p) x y px) s"
  by (simp add: ptr_setPixel_def store_put_def)

lemma deref_Some: "objs s p = Some img \<Longrightarrow> deref s p = img"
  by (simp add: deref_def)

lemma row_loop:
  assumes B: "\<And>x t. objs t src = Some simg \<Longrightarrow> B x t = ptr_setPixel dest x y (F x y) t"
    and ne: "src \<noteq> dest" and src: "objs s src = Some simg"
    and dest: "objs s dest = Some dimg" and wf: "Image_wf dimg"
  shows "for_loop x0 x1 B s =
         store_put dest (paint (\<lambda>x' y'. y' = y \<and> x0 \<le> x' \<and> x' < x1) F dimg) s"
proof (cases "x0 \<le> x1")
  case True
  let ?W = "\<lambda>j x' y'. y' = y \<and> x0 \<le> x' \<and> x' < j"
  let ?P = "\<lambda>j t. t = store_put dest (paint (?W j) F dimg) s"
  have "?P x1 (for_loop x0 x1 B s)"
  proof (rule for_loop_rule [where P = ?P, OF _ _ True])
    have "paint (?W x0) F dimg = paint (\<lambda>x y. False) F dimg"
      by (intro paint_cong [OF wf]) auto
    then show "?P x0 s" using dest by (simp add: paint_none store_put_same)
  next
    fix j t assume j: "x0 \<le> j" "j < x1" and t: "?P j t"
    have "objs t src = Some simg" using t ne src by simp
    then have "B j t = ptr_setPixel dest j y (F j y) t" by (rule B)
    also have "\<dots> = store_put dest (setPixel (paint (?W j) F dimg) j y (F j y)) s"
      using t by (simp add: ptr_setPixel_put deref_def)
    also have "setPixel (paint (?W j) F dimg) j y (F j y) = paint (?W (j + 1)) F dimg"
    proof -
      have "setPixel (paint (?W j) F dimg) j y (F j y) =
            paint (\<lambda>x' y'. ?W j x' y' \<or> (x' = j \<and> y' = y))
                  (\<lambda>x' y'. if x' = j \<and> y' = y then F j y else F x' y') dimg"
        by (simp add: setPixel_paint [OF paint_wf [OF wf]] paint_paint [OF wf])
      also have "\<dots> = paint (?W (j + 1)) F dimg"
        using j by (intro paint_cong [OF wf]) auto
      finally show ?thesis .
    qed
    finally show "?P (j + 1) (B j t)" .
  qed
  then show ?thesis .
next
  case False
  have "paint (\<lambda>x' y'. y' = y \<and> x0 \<le> x' \<and> x' < x1) F dimg = paint (\<lambda>x y. False) F dimg"
    using False by (intro paint_cong [OF wf]) auto
  then show ?thesis using False dest by (simp add: for_loop_done paint_none store_put_same)
qed

lemma raster_loop:
  assumes R: "\<And>y t d. objs t src = Some simg \<Longrightarrow> objs t dest = Some d \<Longrightarrow> Image_wf d \<Longrightarrow>
                Row y t = store_put dest (paint (\<lambda>x' y'. y' = y \<and> x0 \<le> x' \<and> x' < x1) F d) t"
    and ne: "src \<noteq> dest" and src: "objs s src = Some simg"
    and dest: "objs s dest = Some dimg" and wf: "Image_wf dimg"
  shows "for_loop y0 y1 Row s =
         store_put dest (paint (\<lambda>x' y'. y0 \<le> y' \<and> y' < y1 \<and> x0 \<le> x' \<and> x' < x1) F dimg) s"
proof (cases "y0 \<le> y1")
  case True
  let ?W = "\<lambda>j x' y'. y0 \<le> y' \<and> y' < j \<and> x0 \<le> x' \<and> x' < x1"
  let ?P = "\<lambda>j t. t = store_put dest (paint (?W j) F dimg) s"
  have "?P y1 (for_loop y0 y1 Row s)"
  proof (rule for_loop_rule [where P = ?P, OF _ _ True])
    have "paint (?W y0) F dimg = paint (\<lambda>x y. False) F dimg"
      by (intro paint_cong [OF wf]) auto
    then show "?P y0 s" using dest by (simp add: paint_none store_put_same)
  next
    fix j t assume j: "y0 \<le> j" "j < y1" and t: "?P j t"
    have "Row j t = store_put dest
            (paint (\<lambda>x' y'. y' = j \<and> x0 \<le> x' \<and> x' < x1) F (paint (?W j) F dimg)) t"
      using t ne src by (intro R) (simp_all add: paint_wf [OF wf])
    also have "\<dots> = store_put dest
            (paint (\<lambda>x' y'. y' = j \<and> x0 \<le> x' \<and> x' < x1) F (paint (?W j) F dimg)) s"
      using t by simp
    also have "paint (\<lambda>x' y'. y' = j \<and> x0 \<le> x' \<and> x' < x1) F (paint (?W j) F dimg) =
               paint (?W (j + 1)) F dimg"
    proof -
      have "paint (\<lambda>x' y'. y' = j \<and> x0 \<le> x' \<and> x' < x1) F (paint (?W j) F dimg) =
            paint (\<lambda>x' y'. ?W j x' y' \<or> (y' = j \<and> x0 \<le> x' \<and> x' < x1))
                  (\<lambda>x' y'. if y' = j \<and> x0 \<le> x' \<and> x' < x1 then F x' y' else F x' y') dimg"
        by (rule paint_paint [OF wf])
      also have "\<dots> = paint (?W (j + 1)) F dimg"
        using j by (intro paint_cong [OF wf]) auto
      finally show ?thesis .
    qed
    finally show "?P (j + 1) (Row j t)" .
  qed
  then show ?thesis .
next
  case False
  have "paint (\<lambda>x' y'. y0 \<le> y' \<and> y' < y1 \<and> x0 \<le> x' \<and> x' < x1) F dimg =
        paint (\<lambda>x y. False) F dimg"
    using False by (intro paint_cong [OF wf]) auto
  then show ?thesis using False dest by (simp add: for_loop_done paint_none store_put_same)
qed

lemma GrayscaleFilter_apply_paint:
  assumes ne: "src \<noteq> dest" and src: "objs s src = Some simg"
    and dest: "objs s dest = Some dimg" and wf: "Image_wf dimg"
  shows "GrayscaleFilter_apply src dest s =
         store_put dest
           (paint (\<lambda>x y. 0 \<le> y \<and> y < height simg \<and> 0 \<le> x \<and> x < width simg)
                  (\<lambda>x y. \<lparr>r = clamp (gray_intensity (getPixel simg x y)),
                           g = clamp (gray_intensity (getPixel simg x y)),
                           b = clamp (gray_intensity (getPixel simg x y))\<rparr>) dimg) s"
  unfolding GrayscaleFilter_apply_def
proof -
  have h: "ptr_getHeight s src = height simg"
    using src by (simp add: ptr_getHeight_def deref_def)
  show "for_loop 0 (ptr_getHeight s src)
          (\<lambda>y s1. for_loop 0 (ptr_getWidth s1 src)
             (\<lambda>x s. let p = ptr_getPixel s src x y; gray = gray_intensity p; val = clamp gray
                    in ptr_setPixel dest x y \<lparr>r = val, g = val, b = val\<rparr> s) s1) s =
        store_put dest
           (paint (\<lambda>x y. 0 \<le> y \<and> y < height simg \<and> 0 \<le> x \<and> x < width simg)
                  (\<lambda>x y. \<lparr>r = clamp (gray_intensity (getPixel simg x y)),
                           g = clamp (gray_intensity (getPixel simg x y)),
                           b = clamp (gray_intensity (getPixel simg x y))\<rparr>) dimg) s"
    unfolding h
  proof (rule raster_loop [OF _ ne src dest wf])
    fix y and t :: store and d
    assume t: "objs t src = Some simg" "objs t dest = Some d" "Image_wf d"
    have w: "ptr_getWidth t src = width simg"
      using t by (simp add: ptr_getWidth_def deref_def)
    show "for_loop 0 (ptr_getWidth t src)
            (\<lambda>x s. let p = ptr_getPixel s src x y; gray = gray_intensity p; val = clamp gray
                   in ptr_setPixel dest x y \<lparr>r = val, g = val, b = val\<rparr> s) t =
          store_put dest
            (paint (\<lambda>x' y'. y' = y \<and> 0 \<le> x' \<and> x' < width simg)
               (\<lambda>x y. \<lparr>r = clamp (gray_intensity (getPixel simg x y)),
                        g = clamp (gray_intensity (getPixel simg x y)),
                        b = clamp (gray_intensity (getPixel simg x y))\<rparr>) d) t"
      unfolding w
      by (rule row_loop [OF _ ne t]) (simp add: ptr_getPixel_def deref_def Let_def)
  qed
qed

lemma BlurFilter_apply_paint:
  assumes ne: "src \<noteq> dest" and src: "objs s src = Some simg"
    and dest: "objs s dest = Some dimg" and wf: "Image_wf dimg"
  shows "BlurFilter_apply src dest s =
         store_put dest
           (paint (\<lambda>x y. 0 \<le> y \<and> y < height simg \<and> 0 \<le> x \<and> x < width simg)
                  (\<lambda>x y. \<lparr>r = clamp (blur_sum simg x y sdiv divisor),
                           g = clamp (blur_sum simg x y sdiv divisor),
                           b = clamp (blur_sum simg x y sdiv divisor)\<rparr>) dimg) s"
  unfolding BlurFilter_apply_def
proof -
  have h: "ptr_getHeight s src = height simg"
    using src by (simp add: ptr_getHeight_def deref_def)
  show "for_loop 0 (ptr_getHeight s src)
          (\<lambda>y s1. for_loop 0 (ptr_getWidth s1 src)
             (\<lambda>x s. let sum = blur_sum (deref s src) x y; val = clamp (sum sdiv divisor)
                    in ptr_setPixel dest x y \<lparr>r = val, g = val, b = val\<rparr> s) s1) s =
        store_put dest
           (paint (\<lambda>x y. 0 \<le> y \<and> y < height simg \<and> 0 \<le> x \<and> x < width simg)
                  (\<lambda>x y. \<lparr>r = clamp (blur_sum simg x y sdiv divisor),
                           g = clamp (blur_sum simg x y sdiv divisor),
                           b = clamp (blur_sum simg x y sdiv divisor)\<rparr>) dimg) s"
    unfolding h
  proof (rule raster_loop [OF _ ne src dest wf])
    fix y and t :: store and d
    assume t: "objs t src = Some simg" "objs t dest = Some d" "Image_wf d"
    have w: "ptr_getWidth t src = width simg"
      using t by (simp add: ptr_getWidth_def deref_def)
    show "for_loop 0 (ptr_getWidth t src)
            (\<lambda>x s. let sum = blur_sum (deref s src) x y; val = clamp (sum sdiv divisor)
                   in ptr_setPixel dest x y \<lparr>r = val, g = val, b = val\<rparr> s) t =
          store_put dest
            (paint (\<lambda>x' y'. y' = y \<and> 0 \<le> x' \<and> x' < width simg)
               (\<lambda>x y. \<lparr>r = clamp (blur_sum simg x y sdiv divisor),
                        g = clamp (blur_sum simg x y sdiv divisor),
                        b = clamp (blur_sum simg x y sdiv divisor)\<rparr>) d) t"
      unfolding w
      by (rule row_loop [OF _ ne t]) (simp add: Let_def deref_def)
  qed
qed

lemma SobelFilter_apply_paint:
  assumes ne: "src \<noteq> dest" and src: "objs s src = Some simg"
    and dest: "objs s dest = Some dimg" and wf: "Image_wf dimg"
  shows "SobelFilter_apply src dest s =
         store_put dest
           (paint (\<lambda>x y. 1 \<le> y \<and> y < height simg - 1 \<and> 1 \<le> x \<and> x < width simg - 1)
                  (\<lambda>x y. \<lparr>r = clamp (\<bar>fst (sobel_sums simg x y)\<bar> + \<bar>snd (sobel_sums simg x y)\<bar>),
                           g = clamp (\<bar>fst (sobel_sums simg x y)\<bar> + \<bar>snd (sobel_sums simg x y)\<bar>),
                           b = clamp (\<bar>fst (sobel_sums simg x y)\<bar> + \<bar>snd (sobel_sums simg x y)\<bar>)\<rparr>)
                  dimg) s"
  unfolding SobelFilter_apply_def
proof -
  have h: "ptr_getHeight s src = height simg"
    using src by (simp add: ptr_getHeight_def deref_def)
  show "for_loop 1 (ptr_getHeight s src - 1)
          (\<lambda>y s1. for_loop 1 (ptr_getWidth s1 src - 1)
             (\<lambda>x s. let (sumX, sumY) = sobel_sums (deref s src) x y; mag = \<bar>sumX\<bar> + \<bar>sumY\<bar>;
                        final = clamp mag
                    in ptr_setPixel dest x y \<lparr>r = final, g = final, b = final\<rparr> s) s1) s =
        store_put dest
           (paint (\<lambda>x y. 1 \<le> y \<and> y < height simg - 1 \<and> 1 \<le> x \<and> x < width simg - 1)
                  (\<lambda>x y. \<lparr>r = clamp (\<bar>fst (sobel_sums simg x y)\<bar> + \<bar>snd (sobel_sums simg x y)\<bar>),
                           g = clamp (\<bar>fst (sobel_sums simg x y)\<bar> + \<bar>snd (sobel_sums simg x y)\<bar>),
                           b = clamp (\<bar>fst (sobel_sums simg x y)\<bar> + \<bar>snd (sobel_sums simg x y)\<bar>)\<rparr>)
                  dimg) s"
    unfolding h
  proof (rule raster_loop [OF _ ne src dest wf])
    fix y and t :: store and d
    assume t: "objs t src = Some simg" "objs t dest = Some d" "Image_wf d"
    have w: "ptr_getWidth t src = width simg"
      using t by (simp add: ptr_getWidth_def deref_def)
    show "for_loop 1 (ptr_getWidth t src - 1)
            (\<lambda>x s. let (sumX, sumY) = sobel_sums (deref s src) x y; mag = \<bar>sumX\<bar> + \<bar>sumY\<bar>;
                       final = clamp mag
                   in ptr_setPixel dest x y \<lparr>r = final, g = final, b = final\<rparr> s) t =
          store_put dest
            (paint (\<lambda>x' y'. y' = y \<and> 1 \<le> x' \<and> x' < width simg - 1)
               (\<lambda>x y. \<lparr>r = clamp (\<bar>fst (sobel_sums simg x y)\<bar> + \<bar>snd (sobel_sums simg x y)\<bar>),
                        g = clamp (\<bar>fst (sobel_sums simg x y)\<bar> + \<bar>snd (sobel_sums simg x y)\<bar>),
                        b = clamp (\<bar>fst (sobel_sums simg x y)\<bar> + \<bar>snd (sobel_sums simg x y)\<bar>)\<rparr>) d) t"
      unfolding w
      by (rule row_loop [OF _ ne t])
         (simp add: Let_def split_beta deref_def)
  qed
qed

subsection \<open>clamp\<close>

lemma uint_clamp: "uint (clamp v) = (if v < 0 then 0 else if v > 255 then 255 else v)"
  by (simp add: clamp_def uint_word_of_int take_bit_int_eq_self)

lemma div256_range: "(0::int) \<le> x \<Longrightarrow> x < 65536 \<Longrightarrow> 0 \<le> x div 256 \<and> x div 256 \<le> 255"
proof -
  assume h: "0 \<le> x" "x < 65536"
  have "x div 256 \<le> 65535 div 256"
    using h by (intro zdiv_mono1) simp_all
  moreover have "0 \<le> x div 256"
    using h by (simp add: pos_imp_zdiv_nonneg_iff)
  ultimately show ?thesis by simp
qed

lemma gray_intensity_range: "0 \<le> gray_intensity p \<and> gray_intensity p \<le> 255"
proof -
  have "uint (r p) < 256" "uint (g p) < 256" "uint (b p) < 256"
    using uint_bounded [of "r p"] uint_bounded [of "g p"] uint_bounded [of "b p"] by simp_all
  moreover have "0 \<le> uint (r p)" "0 \<le> uint (g p)" "0 \<le> uint (b p)"
    by simp_all
  ultimately have "0 \<le> uint (r p) * 77 + uint (g p) * 150 + uint (b p) * 29"
    and "uint (r p) * 77 + uint (g p) * 150 + uint (b p) * 29 < 256 * 256"
    by linarith+
  then show ?thesis
    unfolding gray_intensity_def drop_bit_eq_div using div256_range by simp
qed

text \<open>
  C6. For every integer \<open>v\<close> the clamped byte lies in \<open>[0, 255]\<close>; clamping the
  (promoted) result again changes nothing; values below 0 give 0, values above
  255 give 255, and a value already in \<open>[0, 255]\<close> is returned unchanged.
\<close>

theorem C6_clamp_saturates:
  "0 \<le> uint (clamp v) \<and> uint (clamp v) \<le> 255
   \<and> clamp (uint (clamp v)) = clamp v
   \<and> (v < 0 \<longrightarrow> clamp v = 0)
   \<and> (255 < v \<longrightarrow> clamp v = 255)
   \<and> (0 \<le> v \<and> v \<le> 255 \<longrightarrow> uint (clamp v) = v)"
proof -
  have idem: "clamp (uint (clamp v)) = clamp v"
    by (simp add: clamp_def uint_word_of_int take_bit_int_eq_self)
  show ?thesis
    using idem by (simp add: uint_clamp) (simp add: clamp_def)
qed

theorem C6_clamp_saturates_witness:
  "clamp (-7) = 0 \<and> clamp 300 = 255 \<and> uint (clamp 200) = 200
   \<and> clamp (uint (clamp 300)) = clamp 300"
proof -
  have "clamp (-7) = 0"
    using C6_clamp_saturates [of "-7"] by simp
  moreover have "clamp 300 = 255"
    using C6_clamp_saturates [of 300] by simp
  moreover have "clamp (uint (clamp 300)) = clamp 300"
    using C6_clamp_saturates [of 300] by blast
  moreover have "uint (clamp 200) = 200"
    using C6_clamp_saturates [of 200] by simp
  ultimately show ?thesis by simp
qed

text \<open>
  C10. For every pixel the intensity \<open>(r*77 + g*150 + b*29) >> 8\<close> that the
  grayscale filter hands to clamp lies in \<open>[0, 255]\<close>, so neither saturation
  branch is taken and clamp returns that very value.
\<close>

theorem C10_gray_intensity_in_byte_range:
  "0 \<le> gray_intensity p \<and> gray_intensity p \<le> 255
   \<and> \<not> gray_intensity p < 0 \<and> \<not> gray_intensity p > 255
   \<and> clamp (gray_intensity p) = word_of_int (gray_intensity p)
   \<and> uint (clamp (gray_intensity p)) = gray_intensity p"
  using gray_intensity_range [of p] by (simp add: uint_clamp) (simp add: clamp_def)

subsection \<open>What each filter leaves in the destination\<close>

lemma blur_sum_unroll:
  "blur_sum img x y =
     uint (r (getPixel img (x - 1) (y - 1))) + 2 * uint (r (getPixel img x (y - 1)))
     + uint (r (getPixel img (x + 1) (y - 1)))
     + 2 * uint (r (getPixel img (x - 1) y)) + 4 * uint (r (getPixel img x y))
     + 2 * uint (r (getPixel img (x + 1) y))
     + uint (r (getPixel img (x - 1) (y + 1))) + 2 * uint (r (getPixel img x (y + 1)))
     + uint (r (getPixel img (x + 1) (y + 1)))"
  by (simp add: blur_sum_def for_loop_step for_loop_done kernel_def Let_def)

lemma sobel_sums_unroll:
  "sobel_sums img x y =
     (- uint (r (getPixel img (x - 1) (y - 1))) + uint (r (getPixel img (x + 1) (y - 1)))
      - 2 * uint (r (getPixel img (x - 1) y)) + 2 * uint (r (getPixel img (x + 1) y))
      - uint (r (getPixel img (x - 1) (y + 1))) + uint (r (getPixel img (x + 1) (y + 1))),
      - uint (r (getPixel img (x - 1) (y - 1))) - 2 * uint (r (getPixel img x (y - 1)))
      - uint (r (getPixel img (x + 1) (y - 1)))
      + uint (r (getPixel img (x - 1) (y + 1))) + 2 * uint (r (getPixel img x (y + 1)))
      + uint (r (getPixel img (x + 1) (y + 1))))"
  by (simp add: sobel_sums_def for_loop_step for_loop_done gx_def gy_def Let_def)

lemma two_buffersD:
  assumes "two_buffers s src dest"
  obtains simg dimg where "src \<noteq> dest" "objs s src = Some simg" "objs s dest = Some dimg"
    "Image_wf simg" "Image_wf dimg" "width dimg = width simg" "height dimg = height simg"
  using assms by (auto simp: two_buffers_def split: option.splits)

lemma Filter_apply_result:
  assumes "src \<noteq> dest" "objs s src = Some simg" "objs s dest = Some dimg" "Image_wf dimg"
  shows "Filter_apply f src dest s = store_put dest (stage_result f simg dimg) s"
proof (cases f)
  case GrayscaleFilter
  have "stage_writes GrayscaleFilter simg =
          (\<lambda>x y. 0 \<le> y \<and> y < height simg \<and> 0 \<le> x \<and> x < width simg)"
    and "stage_pixel GrayscaleFilter simg =
          (\<lambda>x y. \<lparr>r = clamp (gray_intensity (getPixel simg x y)),
                   g = clamp (gray_intensity (getPixel simg x y)),
                   b = clamp (gray_intensity (getPixel simg x y))\<rparr>)"
    by (intro ext, simp add: gray_px_def)+
  then show ?thesis
    using GrayscaleFilter GrayscaleFilter_apply_paint [OF assms] by (simp add: stage_result_def)
next
  case BlurFilter
  have "stage_writes BlurFilter simg =
          (\<lambda>x y. 0 \<le> y \<and> y < height simg \<and> 0 \<le> x \<and> x < width simg)"
    and "stage_pixel BlurFilter simg =
          (\<lambda>x y. \<lparr>r = clamp (blur_sum simg x y sdiv divisor),
                   g = clamp (blur_sum simg x y sdiv divisor),
                   b = clamp (blur_sum simg x y sdiv divisor)\<rparr>)"
    by (intro ext, simp add: gray_px_def)+
  then show ?thesis
    using BlurFilter BlurFilter_apply_paint [OF assms] by (simp add: stage_result_def)
next
  case SobelFilter
  have "stage_writes SobelFilter simg =
          (\<lambda>x y. 1 \<le> y \<and> y < height simg - 1 \<and> 1 \<le> x \<and> x < width simg - 1)"
    and "stage_pixel SobelFilter simg =
          (\<lambda>x y. \<lparr>r = clamp (\<bar>fst (sobel_sums simg x y)\<bar> + \<bar>snd (sobel_sums simg x y)\<bar>),
                   g = clamp (\<bar>fst (sobel_sums simg x y)\<bar> + \<bar>snd (sobel_sums simg x y)\<bar>),
                   b = clamp (\<bar>fst (sobel_sums simg x y)\<bar> + \<bar>snd (sobel_sums simg x y)\<bar>)\<rparr>)"
    by (intro ext, simp add: gray_px_def)+
  then show ?thesis
    using SobelFilter SobelFilter_apply_paint [OF assms] by (simp add: stage_result_def)
qed

lemma stage_result_shape [simp]:
  "width (stage_result f simg dimg) = width dimg"
  "height (stage_result f simg dimg) = height dimg"
  by (simp_all add: stage_result_def)

lemma stage_result_wf: "Image_wf dimg \<Longrightarrow> Image_wf (stage_result f simg dimg)"
  by (simp add: stage_result_def paint_wf)

lemma getPixel_stage_result:
  assumes "Image_wf dimg"
  shows "getPixel (stage_result f simg dimg) x y =
     (if 0 \<le> x \<and> x < width dimg \<and> 0 \<le> y \<and> y < height dimg
      then (if stage_writes f simg x y then stage_pixel f simg x y else getPixel dimg x y)
      else \<lparr>r = 0, g = 0, b = 0\<rparr>)"
  by (simp add: stage_result_def getPixel_paint [OF assms])

text \<open>What a stage leaves at a coordinate of the destination.\<close>

lemma ptr_getPixel_Filter_apply:
  assumes "two_buffers s src dest"
  shows "ptr_getPixel (Filter_apply f src dest s) dest x y =
     (if stage_writes f (deref s src) x y then stage_pixel f (deref s src) x y
      else ptr_getPixel s dest x y)"
proof -
  from assms obtain simg dimg where h: "src \<noteq> dest" "objs s src = Some simg"
    "objs s dest = Some dimg" "Image_wf simg" "Image_wf dimg"
    "width dimg = width simg" "height dimg = height simg"
    by (rule two_buffersD)
  have "Filter_apply f src dest s = store_put dest (stage_result f simg dimg) s"
    by (rule Filter_apply_result [OF h(1,2,3,5)])
  moreover have "stage_writes f simg x y \<Longrightarrow>
      0 \<le> x \<and> x < width simg \<and> 0 \<le> y \<and> y < height simg"
    by (cases f) auto
  moreover have "\<not> (0 \<le> x \<and> x < width dimg \<and> 0 \<le> y \<and> y < height dimg) \<Longrightarrow>
      getPixel dimg x y = \<lparr>r = 0, g = 0, b = 0\<rparr>"
    by (auto simp: getPixel_def)
  ultimately show ?thesis
    using h by (auto simp: ptr_getPixel_def deref_def getPixel_stage_result)
qed

lemma Filter_apply_frame:
  assumes "two_buffers s src dest" "a \<noteq> dest"
  shows "objs (Filter_apply f src dest s) a = objs s a"
proof -
  from assms(1) obtain simg dimg where h: "src \<noteq> dest" "objs s src = Some simg"
    "objs s dest = Some dimg" "Image_wf dimg"
    by (rule two_buffersD)
  show ?thesis
    using assms(2) by (simp add: Filter_apply_result [OF h])
qed


subsection \<open>The example buffers\<close>

lemma int32_mul_exact:
  assumes "0 \<le> a * c" "a * c \<le> INT_MAX"
  shows "int32_mul a c = a * c"
proof -
  have "int32_mul a c = sint (word_of_int (a * c) :: 32 word)"
    by (simp add: int32_mul_def)
  also have "\<dots> = signed_take_bit 31 (a * c)"
    using sint_sbintrunc' [of "a * c", where 'a = 32] by simp
  also have "\<dots> = a * c"
    using assms by (intro signed_take_bit_int_eq_self) (simp_all add: INT_MAX_def)
  finally show ?thesis .
qed

lemma Image_new_ok:
  assumes "0 \<le> w" "0 \<le> h" "w * h \<le> INT_MAX"
  shows "Image_new w h mem = Inr (raw_image w h mem)" and "Image_wf (raw_image w h mem)"
proof -
  have "0 \<le> w * h" using assms(1,2) by simp
  then have "int32_mul w h = w * h" using assms(3) by (rule int32_mul_exact)
  then show "Image_new w h mem = Inr (raw_image w h mem)"
    using \<open>0 \<le> w * h\<close> by (simp add: Image_new_def raw_image_def)
  show "Image_wf (raw_image w h mem)"
    using assms(1,2) by (simp add: Image_wf_def raw_image_def)
qed

lemma Image_copy_wf:
  assumes "Image_wf img" and "width img * height img \<le> INT_MAX"
  shows "Image_copy img = Inr img"
proof -
  have nn: "0 \<le> width img * height img" using assms(1) by (simp add: Image_wf_def)
  then have m: "int32_mul (width img) (height img) = width img * height img"
    using assms(2) by (rule int32_mul_exact)
  have "map (\<lambda>i. data img ! i) [0..<length (data img)] = data img"
    by (rule map_nth)
  then have "map (\<lambda>i. data img ! i) [0..<nat (width img * height img)] = data img"
    using assms(1) by (simp add: Image_wf_def)
  then have "\<lparr>width = width img, height = height img,
        data = map (\<lambda>i. data img ! i) [0..<nat (width img * height img)]\<rparr> = img"
    by (intro Image.equality) simp_all
  then show ?thesis using nn by (simp add: Image_copy_def m)
qed

lemma Image_copy_built:
  assumes "Image_built img"
  shows "Image_copy img = Inr img"
proof -
  have "map (\<lambda>i. data img ! i) [0..<length (data img)] = data img"
    by (rule map_nth)
  then have "map (\<lambda>i. data img ! i) [0..<nat (int32_mul (width img) (height img))] = data img"
    using assms by (simp add: Image_built_def)
  then have "\<lparr>width = width img, height = height img,
        data = map (\<lambda>i. data img ! i) [0..<nat (int32_mul (width img) (height img))]\<rparr> = img"
    by (intro Image.equality) simp_all
  then show ?thesis using assms by (simp add: Image_copy_def Image_built_def)
qed

lemma Image_new_built:
  "0 \<le> int32_mul w h \<Longrightarrow> \<not> isl (Image_new w h mem) \<and> Image_built (projr (Image_new w h mem))"
  by (simp add: Image_new_def Image_built_def)

lemma int32_mul_le: "int32_mul a c \<le> INT_MAX"
proof -
  have "sint (word_of_int a * word_of_int c :: 32 word) < 2 ^ (LENGTH(32) - 1)"
    by (rule sint_lt)
  then show ?thesis by (simp add: int32_mul_def INT_MAX_def)
qed

lemma Image_wf_built_iff:
  "Image_wf img \<and> Image_built img \<longleftrightarrow> Image_wf img \<and> width img * height img \<le> INT_MAX"
proof
  assume h: "Image_wf img \<and> Image_built img"
  then have nn: "0 \<le> width img * height img" by (simp add: Image_wf_def)
  have "nat (width img * height img) = nat (int32_mul (width img) (height img))"
    using h by (simp add: Image_wf_def Image_built_def)
  moreover have "0 \<le> int32_mul (width img) (height img)"
    using h by (simp add: Image_built_def)
  ultimately have "width img * height img = int32_mul (width img) (height img)"
    using nn by linarith
  then show "Image_wf img \<and> width img * height img \<le> INT_MAX"
    using h int32_mul_le [of "width img" "height img"] by simp
next
  assume h: "Image_wf img \<and> width img * height img \<le> INT_MAX"
  then have nn: "0 \<le> width img * height img" by (simp add: Image_wf_def)
  have "int32_mul (width img) (height img) = width img * height img"
    using nn h by (intro int32_mul_exact) simp_all
  then show "Image_wf img \<and> Image_built img"
    using h nn by (simp add: Image_built_def Image_wf_def)
qed

lemma Image_new_white3: "Image_new 3 3 white_mem = Inr white3"
proof -
  have wm: "white_mem = (\<lambda>i. white)" by (intro ext) (simp add: white_mem_def)
  have "map white_mem [0..<9] = replicate (length [0..<9::nat]) white"
    unfolding wm by (rule map_replicate_const)
  then have "map white_mem [0..<9] = replicate 9 white" by simp
  then show ?thesis by (simp add: Image_new_def int32_mul_def white3_def)
qed

lemma input_store_ok: "store_ok (input_store img)" "objs (input_store img) 0 = Some img"
  by (simp_all add: store_ok_def input_store_def)

lemma example_wf: "Image_wf white3" "Image_wf black3" "Image_wf tint3"
  by (simp_all add: Image_wf_def white3_def black3_def tint3_def)

lemma example_two_buffers: "two_buffers (store2 white3 black3) 0 1"
  "two_buffers (store2 tint3 black3) 0 1" "two_buffers (store2 white3 white3) 0 1"
  by (simp_all add: two_buffers_def store2_def example_wf) (simp_all add: white3_def black3_def tint3_def)

lemma example_uniform: "uniform white white3" "uniform tint tint3" "uniform black black3"
  by (simp_all add: uniform_def white3_def tint3_def black3_def)

lemma example_deref [simp]: "deref (store2 a c) 0 = a" "deref (store2 a c) (Suc 0) = c"
  by (simp_all add: deref_def store2_def)

subsection \<open>Pixel buffer access\<close>

lemma getPixel_outside:
  "x < 0 \<or> width img \<le> x \<or> y < 0 \<or> height img \<le> y \<Longrightarrow> getPixel img x y = \<lparr>r = 0, g = 0, b = 0\<rparr>"
  by (auto simp: getPixel_def)


text \<open>What the two accessors do on a well-formed buffer.\<close>

lemma getPixel_setPixel_wf:
  assumes "Image_wf img"
  shows "(x < 0 \<or> width img \<le> x \<or> y < 0 \<or> height img \<le> y \<longrightarrow>
            getPixel img x y = \<lparr>r = 0, g = 0, b = 0\<rparr> \<and> setPixel img x y p = img)
       \<and> (0 \<le> x \<and> x < width img \<and> 0 \<le> y \<and> y < height img \<longrightarrow>
            nat (y * width img + x) < length (data img)
          \<and> getPixel img x y = data img ! nat (y * width img + x)
          \<and> setPixel img x y p = img\<lparr>data := (data img)[nat (y * width img + x) := p]\<rparr>
          \<and> getPixel (setPixel img x y p) x y = p
          \<and> (\<forall>x' y'. (x', y') \<noteq> (x, y) \<longrightarrow>
                getPixel (setPixel img x y p) x' y' = getPixel img x' y'))"
proof (intro conjI impI)
  assume "x < 0 \<or> width img \<le> x \<or> y < 0 \<or> height img \<le> y"
  then show "getPixel img x y = \<lparr>r = 0, g = 0, b = 0\<rparr>" "setPixel img x y p = img"
    by (auto simp: getPixel_def setPixel_def)
next
  assume inb: "0 \<le> x \<and> x < width img \<and> 0 \<le> y \<and> y < height img"
  then show "nat (y * width img + x) < length (data img)"
    using index_in_block(1) [OF assms] by simp
  show "getPixel img x y = data img ! nat (y * width img + x)"
    using inb by (simp add: getPixel_def)
  show "setPixel img x y p = img\<lparr>data := (data img)[nat (y * width img + x) := p]\<rparr>"
    using inb by (simp add: setPixel_def)
  show "getPixel (setPixel img x y p) x y = p"
    using inb by (simp add: setPixel_paint [OF assms] getPixel_paint [OF assms])
  show "\<forall>x' y'. (x', y') \<noteq> (x, y) \<longrightarrow>
          getPixel (setPixel img x y p) x' y' = getPixel img x' y'"
  proof (intro allI impI)
    fix x' y' assume "(x', y') \<noteq> (x, y)"
    then show "getPixel (setPixel img x y p) x' y' = getPixel img x' y'"
      using getPixel_outside [of x' img y']
      by (auto simp: setPixel_paint [OF assms] getPixel_paint [OF assms])
  qed
qed

lemma setPixel_wf: "Image_wf img \<Longrightarrow> Image_wf (setPixel img x y p)"
  by (simp add: setPixel_paint paint_wf)

lemma int32_mul_wide: "int32_mul 65536 65537 = 65536"
  by (simp add: int32_mul_def)

lemma wide_shape: "Image_new 65536 65537 zero_mem = Inr wide"
  "width wide = 65536" "height wide = 65537" "length (data wide) = 65536"
  by (simp_all add: wide_def Image_new_def int32_mul_wide)

text \<open>
  C4, as stated, fails. The constructor called with 65536 by 65537 (both at
  least 1) allocates a block of 65536 pixels, the 32-bit product. The
  coordinate \<open>(0, 1)\<close> passes the bounds check of both accessors and its address
  \<open>1 * 65536 + 0\<close> is the first offset after the block: the read returns no
  stored pixel and the write changes no pixel of the block.
\<close>

theorem C4_access_outside_block:
  "Image_new 65536 65537 zero_mem = Inr wide
   \<and> 1 \<le> width wide \<and> 1 \<le> height wide
   \<and> width wide = 65536 \<and> height wide = 65537 \<and> length (data wide) = 65536
   \<and> nat (1 * width wide + 0) = 65536
   \<and> block_fault wide 0 1
   \<and> setPixel wide 0 1 white = wide"
proof -
  have "(data wide)[65536 := white] = data wide"
    by (rule list_update_beyond) (simp add: wide_shape)
  then have "setPixel wide 0 1 white = wide"
    by (simp add: setPixel_def wide_shape)
  moreover have "block_fault wide 0 1"
    by (simp add: block_fault_def wide_shape)
  ultimately show ?thesis by (simp add: wide_shape)
qed

text \<open>
  C4, amended. On a buffer whose block holds \<open>width * height\<close> pixels, a read
  outside \<open>[0, width) \<times> [0, height)\<close> gives the zero pixel and a write there
  leaves the buffer as it is; inside, the address \<open>y * width + x\<close> lies in the
  block, the read gives the pixel stored there, and a write replaces exactly
  that pixel; no access leaves the block, and both functions are total, with
  no error result. The constructor builds such a buffer whenever the
  dimensions are not negative and \<open>width * height\<close> is at most \<open>INT_MAX\<close>, and a
  write keeps the buffer such.
\<close>

theorem C4_getPixel_setPixel_bounds:
  assumes "Image_wf img"
  shows "(x < 0 \<or> width img \<le> x \<or> y < 0 \<or> height img \<le> y \<longrightarrow>
            getPixel img x y = \<lparr>r = 0, g = 0, b = 0\<rparr> \<and> setPixel img x y p = img)
       \<and> (0 \<le> x \<and> x < width img \<and> 0 \<le> y \<and> y < height img \<longrightarrow>
            nat (y * width img + x) < length (data img)
          \<and> getPixel img x y = data img ! nat (y * width img + x)
          \<and> setPixel img x y p = img\<lparr>data := (data img)[nat (y * width img + x) := p]\<rparr>
          \<and> getPixel (setPixel img x y p) x y = p
          \<and> (\<forall>x' y'. (x', y') \<noteq> (x, y) \<longrightarrow>
                getPixel (setPixel img x y p) x' y' = getPixel img x' y'))
       \<and> \<not> block_fault img x y
       \<and> Image_wf (setPixel img x y p)
       \<and> (0 \<le> w \<and> 0 \<le> h \<and> w * h \<le> INT_MAX \<longrightarrow>
            \<not> isl (Image_new w h mem) \<and> Image_wf (projr (Image_new w h mem))
          \<and> width (projr (Image_new w h mem)) = w \<and> height (projr (Image_new w h mem)) = h)"
proof -
  note acc = getPixel_setPixel_wf [OF assms, of x y p]
  have nf: "\<not> block_fault img x y"
    using acc by (auto simp: block_fault_def)
  have new: "\<not> isl (Image_new w h mem) \<and> Image_wf (projr (Image_new w h mem))
          \<and> width (projr (Image_new w h mem)) = w \<and> height (projr (Image_new w h mem)) = h"
    if "0 \<le> w \<and> 0 \<le> h \<and> w * h \<le> INT_MAX"
    using Image_new_ok [of w h mem] that by (simp add: raw_image_def)
  show ?thesis
    using acc nf setPixel_wf [OF assms, of x y p] new by blast
qed

theorem C4_getPixel_setPixel_bounds_witness:
  "Image_wf white3
   \<and> getPixel white3 3 0 = \<lparr>r = 0, g = 0, b = 0\<rparr> \<and> setPixel white3 3 0 tint = white3
   \<and> getPixel white3 (- 1) 2 = \<lparr>r = 0, g = 0, b = 0\<rparr>
   \<and> getPixel white3 2 1 = white \<and> getPixel (setPixel white3 2 1 tint) 2 1 = tint
   \<and> getPixel (setPixel white3 2 1 tint) 1 1 = white
   \<and> \<not> block_fault white3 2 1
   \<and> (3::int) * 3 \<le> INT_MAX \<and> Image_wf (projr (Image_new 3 3 white_mem))"
proof -
  have "getPixel white3 3 0 = \<lparr>r = 0, g = 0, b = 0\<rparr> \<and> setPixel white3 3 0 tint = white3"
    using C4_getPixel_setPixel_bounds [OF example_wf(1), of 3 0 tint] by (simp add: white3_def)
  moreover have "getPixel white3 (- 1) 2 = \<lparr>r = 0, g = 0, b = 0\<rparr>"
    using C4_getPixel_setPixel_bounds [OF example_wf(1), of "- 1" 2 tint] by simp
  moreover have "getPixel white3 2 1 = white \<and> getPixel (setPixel white3 2 1 tint) 2 1 = tint
      \<and> getPixel (setPixel white3 2 1 tint) 1 1 = white"
    using C4_getPixel_setPixel_bounds [OF example_wf(1), of 2 1 tint]
    by (simp add: white3_def getPixel_def)
  moreover have "\<not> block_fault white3 2 1"
    using C4_getPixel_setPixel_bounds [OF example_wf(1), of 2 1 tint] by blast
  moreover have fits: "(3::int) * 3 \<le> INT_MAX" by (simp add: INT_MAX_def)
  moreover have "Image_wf (projr (Image_new 3 3 white_mem))"
    using C4_getPixel_setPixel_bounds [OF example_wf(1), of 2 1 tint 3 3 white_mem] fits
    by simp
  ultimately show ?thesis using example_wf(1) by simp
qed


subsection \<open>The filters\<close>

lemma two_buffers_dims:
  assumes "two_buffers s src dest"
  shows "ptr_getWidth s src = width (deref s src)" "ptr_getHeight s src = height (deref s src)"
    "Image_wf (deref s src)" "Image_wf (deref s dest)"
    "width (deref s dest) = width (deref s src)" "height (deref s dest) = height (deref s src)"
  using assms by (auto simp: ptr_getWidth_def ptr_getHeight_def deref_def elim!: two_buffersD)

lemma uniform_getPixel:
  assumes "Image_wf img" "uniform c img" "0 \<le> x" "x < width img" "0 \<le> y" "y < height img"
  shows "getPixel img x y = c"
proof -
  have "nat (y * width img + x) < length (data img)"
    by (rule index_in_block(1) [OF assms(1,3-6)])
  then have "data img ! nat (y * width img + x) \<in> set (data img)" by simp
  then show ?thesis using assms by (simp add: getPixel_def uniform_def)
qed

lemma clamp_uint [simp]: "clamp (uint (v :: u8)) = v"
proof -
  have "uint v < 256" using uint_bounded [of v] by simp
  then show ?thesis by (simp add: clamp_def)
qed

lemma sdiv_nonneg: "0 \<le> a \<Longrightarrow> 0 < c \<Longrightarrow> a sdiv c = a div (c :: int)"
  by (simp add: signed_divide_int_def sgn_if)

text \<open>
  C5. With source and destination two buffers of identical dimensions, the
  grayscale filter leaves at every in-range coordinate the pixel whose three
  channels are \<open>clamp ((r*77 + g*150 + b*29) >> 8)\<close> of the source pixel at that
  coordinate; every pixel read from the output has equal channels.
\<close>

theorem C5_grayscale_pixels:
  assumes "two_buffers s src dest"
  shows "(0 \<le> x \<and> x < ptr_getWidth s src \<and> 0 \<le> y \<and> y < ptr_getHeight s src \<longrightarrow>
            ptr_getPixel (GrayscaleFilter_apply src dest s) dest x y =
              (let p = ptr_getPixel s src x y;
                   v = clamp (drop_bit 8 (uint (r p) * 77 + uint (g p) * 150 + uint (b p) * 29))
               in \<lparr>r = v, g = v, b = v\<rparr>))
       \<and> r (ptr_getPixel (GrayscaleFilter_apply src dest s) dest x' y') =
           g (ptr_getPixel (GrayscaleFilter_apply src dest s) dest x' y')
       \<and> g (ptr_getPixel (GrayscaleFilter_apply src dest s) dest x' y') =
           b (ptr_getPixel (GrayscaleFilter_apply src dest s) dest x' y')"
proof -
  note d = two_buffers_dims [OF assms]
  have px: "ptr_getPixel (GrayscaleFilter_apply src dest s) dest u v =
      (if stage_writes GrayscaleFilter (deref s src) u v
       then stage_pixel GrayscaleFilter (deref s src) u v else ptr_getPixel s dest u v)" for u v
    using ptr_getPixel_Filter_apply [OF assms, of GrayscaleFilter u v] by simp
  have out: "\<not> stage_writes GrayscaleFilter (deref s src) u v \<Longrightarrow>
      ptr_getPixel s dest u v = \<lparr>r = 0, g = 0, b = 0\<rparr>" for u v
    using d(5,6) by (intro getPixel_outside [of u "deref s dest" v, folded ptr_getPixel_def]) auto
  have "r (ptr_getPixel (GrayscaleFilter_apply src dest s) dest x' y') =
        g (ptr_getPixel (GrayscaleFilter_apply src dest s) dest x' y')
      \<and> g (ptr_getPixel (GrayscaleFilter_apply src dest s) dest x' y') =
        b (ptr_getPixel (GrayscaleFilter_apply src dest s) dest x' y')"
    using out [of x' y'] by (simp add: px gray_px_def)
  moreover have "0 \<le> x \<and> x < ptr_getWidth s src \<and> 0 \<le> y \<and> y < ptr_getHeight s src \<longrightarrow>
            ptr_getPixel (GrayscaleFilter_apply src dest s) dest x y =
              (let p = ptr_getPixel s src x y;
                   v = clamp (drop_bit 8 (uint (r p) * 77 + uint (g p) * 150 + uint (b p) * 29))
               in \<lparr>r = v, g = v, b = v\<rparr>)"
    unfolding px
    by (simp add: d(1,2) gray_px_def gray_intensity_def ptr_getPixel_def [of s src] Let_def)
  ultimately show ?thesis by blast
qed

theorem C5_grayscale_pixels_witness:
  "two_buffers (store2 tint3 black3) 0 1
   \<and> ptr_getPixel (GrayscaleFilter_apply 0 1 (store2 tint3 black3)) 1 2 1 =
       \<lparr>r = 123, g = 123, b = 123\<rparr>"
  using C5_grayscale_pixels [OF example_two_buffers(2), of 2 1] example_two_buffers(2)
  by (simp add: ptr_getWidth_def ptr_getHeight_def ptr_getPixel_def getPixel_def tint3_def
      tint_def clamp_def Let_def)

text \<open>
  C7. On a uniform source the Sobel filter finds \<open>sumX = 0\<close> and \<open>sumY = 0\<close> at
  every interior coordinate, so the magnitude \<open>|sumX| + |sumY|\<close> is 0 and the
  gray value written there is 0.
\<close>

theorem C7_sobel_uniform_interior_zero:
  assumes "two_buffers s src dest" and "uniform c (deref s src)"
    and "1 \<le> x" "x \<le> ptr_getWidth s src - 2" "1 \<le> y" "y \<le> ptr_getHeight s src - 2"
  shows "sobel_sums (deref s src) x y = (0, 0)
       \<and> \<bar>fst (sobel_sums (deref s src) x y)\<bar> + \<bar>snd (sobel_sums (deref s src) x y)\<bar> = 0
       \<and> ptr_getPixel (SobelFilter_apply src dest s) dest x y = \<lparr>r = 0, g = 0, b = 0\<rparr>"
proof -
  note d = two_buffers_dims [OF assms(1)]
  have inb: "1 \<le> x" "x \<le> width (deref s src) - 2" "1 \<le> y" "y \<le> height (deref s src) - 2"
    using assms(3-6) d(1,2) by simp_all
  have nb: "getPixel (deref s src) (x + i) (y + j) = c"
    if "- 1 \<le> i" "i \<le> 1" "- 1 \<le> j" "j \<le> 1" for i j
    using inb that by (intro uniform_getPixel [OF d(3) assms(2)]) simp_all
  have sums: "sobel_sums (deref s src) x y = (0, 0)"
    using nb [of "- 1" "- 1"] nb [of 0 "- 1"] nb [of 1 "- 1"] nb [of "- 1" 0] nb [of 1 0]
      nb [of "- 1" 1] nb [of 0 1] nb [of 1 1]
    by (simp add: sobel_sums_unroll)
  have "stage_writes SobelFilter (deref s src) x y" using inb by simp
  then have "ptr_getPixel (SobelFilter_apply src dest s) dest x y =
      stage_pixel SobelFilter (deref s src) x y"
    using ptr_getPixel_Filter_apply [OF assms(1), of SobelFilter x y] by simp
  then show ?thesis using sums by (simp add: gray_px_def clamp_def)
qed

theorem C7_sobel_uniform_interior_zero_witness:
  "two_buffers (store2 tint3 white3) 0 1 \<and> uniform tint (deref (store2 tint3 white3) 0)
   \<and> sobel_sums tint3 1 1 = (0, 0)
   \<and> ptr_getPixel (SobelFilter_apply 0 1 (store2 tint3 white3)) 1 1 1 = \<lparr>r = 0, g = 0, b = 0\<rparr>"
proof -
  have tb: "two_buffers (store2 tint3 white3) 0 1"
    by (simp add: two_buffers_def store2_def example_wf) (simp add: white3_def tint3_def)
  have un: "uniform tint (deref (store2 tint3 white3) 0)"
    by (simp add: example_uniform)
  show ?thesis
    using C7_sobel_uniform_interior_zero [OF tb un, of 1 1] tb un
    by (simp add: ptr_getWidth_def ptr_getHeight_def tint3_def)
qed

text \<open>
  C8, as stated, fails when the two pointers are one buffer: the filter then
  writes the object it reads. In place, the blur turns the gray ramp
  16, 32, .., 144 into 21 36 33, 52 78 66, 55 74 58; the grayscale filter turns
  the colour (10, 200, 30) into gray 123; the Sobel filter writes 255 at the
  centre of the ramp.
\<close>

theorem C8_in_place_changes_source:
  "objs (input_store ramp3) 0 = Some ramp3 \<and> Image_wf ramp3
   \<and> objs (BlurFilter_apply 0 0 (input_store ramp3)) 0 =
       Some \<lparr>width = 3, height = 3,
             data = [gray_px 21, gray_px 36, gray_px 33, gray_px 52, gray_px 78, gray_px 66,
                     gray_px 55, gray_px 74, gray_px 58]\<rparr>
   \<and> objs (BlurFilter_apply 0 0 (input_store ramp3)) 0 \<noteq> objs (input_store ramp3) 0
   \<and> ptr_getPixel (input_store tint3) 0 0 0 = \<lparr>r = 10, g = 200, b = 30\<rparr>
   \<and> ptr_getPixel (GrayscaleFilter_apply 0 0 (input_store tint3)) 0 0 0
       = \<lparr>r = 123, g = 123, b = 123\<rparr>
   \<and> ptr_getPixel (input_store ramp3) 0 1 1 = \<lparr>r = 80, g = 80, b = 80\<rparr>
   \<and> ptr_getPixel (SobelFilter_apply 0 0 (input_store ramp3)) 0 1 1
       = \<lparr>r = 255, g = 255, b = 255\<rparr>"
proof -
  have blur: "objs (BlurFilter_apply 0 0 (input_store ramp3)) 0 =
       Some \<lparr>width = 3, height = 3,
             data = [gray_px 21, gray_px 36, gray_px 33, gray_px 52, gray_px 78, gray_px 66,
                     gray_px 55, gray_px 74, gray_px 58]\<rparr>"
    by (simp add: BlurFilter_apply_def input_store_def ramp3_def for_loop_step for_loop_done
        ptr_getHeight_def ptr_getWidth_def deref_def ptr_setPixel_def setPixel_def getPixel_def
        blur_sum_unroll clamp_def divisor_def gray_px_def Let_def)
  have ne: "objs (BlurFilter_apply 0 0 (input_store ramp3)) 0 \<noteq> objs (input_store ramp3) 0"
    unfolding blur by (simp add: input_store_def ramp3_def gray_px_def)
  have gray: "ptr_getPixel (GrayscaleFilter_apply 0 0 (input_store tint3)) 0 0 0
       = \<lparr>r = 123, g = 123, b = 123\<rparr>"
    by (simp add: GrayscaleFilter_apply_def input_store_def tint3_def tint_def for_loop_step
        for_loop_done ptr_getHeight_def ptr_getWidth_def ptr_getPixel_def deref_def
        ptr_setPixel_def setPixel_def getPixel_def gray_intensity_def clamp_def Let_def)
  have sobel: "ptr_getPixel (SobelFilter_apply 0 0 (input_store ramp3)) 0 1 1
       = \<lparr>r = 255, g = 255, b = 255\<rparr>"
    by (simp add: SobelFilter_apply_def input_store_def ramp3_def for_loop_step for_loop_done
        ptr_getHeight_def ptr_getWidth_def ptr_getPixel_def deref_def ptr_setPixel_def
        setPixel_def getPixel_def sobel_sums_unroll clamp_def gray_px_def Let_def)
  have before: "ptr_getPixel (input_store tint3) 0 0 0 = \<lparr>r = 10, g = 200, b = 30\<rparr>"
    "ptr_getPixel (input_store ramp3) 0 1 1 = \<lparr>r = 80, g = 80, b = 80\<rparr>"
    by (simp_all add: ptr_getPixel_def deref_def input_store_def getPixel_def tint3_def tint_def
        ramp3_def gray_px_def)
  have wf: "Image_wf ramp3" by (simp add: Image_wf_def ramp3_def)
  show ?thesis using blur ne gray sobel before wf input_store_ok(2) [of ramp3] by simp
qed

text \<open>
  C8, amended. Each filter, applied from a source into a different destination
  buffer of identical dimensions, leaves the source object as it was (and so
  every object of the store other than the destination).
\<close>

theorem C8_filters_keep_source:
  assumes "two_buffers s src dest"
  shows "objs (GrayscaleFilter_apply src dest s) src = objs s src
       \<and> objs (BlurFilter_apply src dest s) src = objs s src
       \<and> objs (SobelFilter_apply src dest s) src = objs s src
       \<and> (\<forall>a. a \<noteq> dest \<longrightarrow> objs (Filter_apply f src dest s) a = objs s a)"
proof -
  have ne: "src \<noteq> dest" using assms by (simp add: two_buffers_def)
  show ?thesis
    using Filter_apply_frame [OF assms, of src GrayscaleFilter]
      Filter_apply_frame [OF assms, of src BlurFilter]
      Filter_apply_frame [OF assms, of src SobelFilter]
      Filter_apply_frame [OF assms, of _ f] ne
    by simp
qed

theorem C8_filters_keep_source_witness:
  "two_buffers (store2 white3 black3) 0 1
   \<and> deref (GrayscaleFilter_apply 0 1 (store2 white3 black3)) 0 = white3
   \<and> deref (BlurFilter_apply 0 1 (store2 white3 black3)) 0 = white3
   \<and> deref (SobelFilter_apply 0 1 (store2 white3 black3)) 0 = white3"
  using C8_filters_keep_source [OF example_two_buffers(1)] example_two_buffers(1)
  by (simp add: deref_def) (simp add: store2_def)

lemma Filter_apply_two_buffers:
  assumes "two_buffers s src dest"
  shows "two_buffers (Filter_apply f src dest s) dest src"
proof -
  from assms obtain simg dimg where h: "src \<noteq> dest" "objs s src = Some simg"
    "objs s dest = Some dimg" "Image_wf simg" "Image_wf dimg"
    "width dimg = width simg" "height dimg = height simg"
    by (rule two_buffersD)
  show ?thesis
    using h by (simp add: Filter_apply_result [OF h(1,2,3,5)] two_buffers_def stage_result_wf)
qed

lemma two_buffers_sym: "two_buffers s src dest \<Longrightarrow> two_buffers s dest src"
  by (auto simp: two_buffers_def split: option.splits)

subsection \<open>The Sobel ring\<close>

lemma before_sobel_two_buffers: "two_buffers before_sobel 0 1"
proof -
  have "two_buffers (GrayscaleFilter_apply 0 1 (store2 white3 black3)) 1 0"
    using Filter_apply_two_buffers [OF example_two_buffers(1), of GrayscaleFilter] by simp
  from Filter_apply_two_buffers [OF this, of BlurFilter] show ?thesis
    by (simp add: before_sobel_def)
qed

lemma before_sobel_corner: "ptr_getPixel before_sobel 1 0 0 = white"
proof -
  let ?s1 = "GrayscaleFilter_apply 0 1 (store2 white3 black3)"
  have tb1: "two_buffers ?s1 1 0"
    using Filter_apply_two_buffers [OF example_two_buffers(1), of GrayscaleFilter] by simp
  have "objs before_sobel 1 = objs ?s1 1"
    using Filter_apply_frame [OF tb1, of 1 BlurFilter] by (simp add: before_sobel_def)
  then have "ptr_getPixel before_sobel 1 0 0 = ptr_getPixel ?s1 1 0 0"
    by (simp add: ptr_getPixel_def deref_def)
  also have "\<dots> = stage_pixel GrayscaleFilter white3 0 0"
    using ptr_getPixel_Filter_apply [OF example_two_buffers(1), of GrayscaleFilter 0 0]
    by (simp add: white3_def)
  also have "\<dots> = white"
    by (simp add: getPixel_def white3_def white_def gray_intensity_def gray_px_def clamp_def)
  finally show ?thesis .
qed

text \<open>
  C2, as stated, fails. A destination fresh from the constructor on a block
  that held white pixels keeps them in its ring; and in the pipeline of
  \<open>main\<close> on a white 3 by 3 image, with a zero-filled back buffer, the Sobel
  stage writes into the buffer that holds the grayscale stage's output, and
  the corner of that buffer is still white afterwards.
\<close>

theorem C2_ring_not_zero:
  "Image_new 3 3 white_mem = Inr white3
   \<and> two_buffers (store2 black3 (projr (Image_new 3 3 white_mem))) 0 1
   \<and> ptr_getPixel (SobelFilter_apply 0 1 (store2 black3 (projr (Image_new 3 3 white_mem)))) 1 0 0
       = \<lparr>r = 255, g = 255, b = 255\<rparr>
   \<and> two_buffers before_sobel 0 1
   \<and> ptr_getPixel (SobelFilter_apply 0 1 before_sobel) 1 0 0 = \<lparr>r = 255, g = 255, b = 255\<rparr>"
proof -
  let ?s = "store2 black3 white3"
  have new: "Image_new 3 3 white_mem = Inr white3"
    by (rule Image_new_white3)
  have tb: "two_buffers ?s 0 1"
    by (simp add: two_buffers_def store2_def example_wf) (simp add: white3_def black3_def)
  have "ptr_getPixel (SobelFilter_apply 0 1 ?s) 1 0 0 = ptr_getPixel ?s 1 0 0"
    using ptr_getPixel_Filter_apply [OF tb, of SobelFilter 0 0] by simp
  also have "\<dots> = \<lparr>r = 255, g = 255, b = 255\<rparr>"
    by (simp add: ptr_getPixel_def getPixel_def white3_def white_def)
  finally have a: "ptr_getPixel (SobelFilter_apply 0 1 ?s) 1 0 0 = \<lparr>r = 255, g = 255, b = 255\<rparr>" .
  have "ptr_getPixel (SobelFilter_apply 0 1 before_sobel) 1 0 0 = ptr_getPixel before_sobel 1 0 0"
    using ptr_getPixel_Filter_apply [OF before_sobel_two_buffers, of SobelFilter 0 0] by simp
  then have "ptr_getPixel (SobelFilter_apply 0 1 before_sobel) 1 0 0 = \<lparr>r = 255, g = 255, b = 255\<rparr>"
    using before_sobel_corner by (simp add: white_def)
  then show ?thesis using tb a before_sobel_two_buffers by (simp add: new)
qed

text \<open>
  C2, amended. The Sobel filter writes the interior coordinates only: there
  the destination holds the clamped magnitude as a gray pixel, and at every
  other coordinate (the outermost ring included) it holds the pixel it held
  before the call, which is the zero pixel where the destination was zero.
\<close>

theorem C2_sobel_writes_interior_only:
  assumes "two_buffers s src dest"
  shows "ptr_getPixel (SobelFilter_apply src dest s) dest x y =
           (if 1 \<le> x \<and> x \<le> ptr_getWidth s src - 2 \<and> 1 \<le> y \<and> y \<le> ptr_getHeight s src - 2
            then gray_px (clamp (\<bar>fst (sobel_sums (deref s src) x y)\<bar>
                                 + \<bar>snd (sobel_sums (deref s src) x y)\<bar>))
            else ptr_getPixel s dest x y)
       \<and> (uniform \<lparr>r = 0, g = 0, b = 0\<rparr> (deref s dest)
            \<and> \<not> (1 \<le> x \<and> x \<le> ptr_getWidth s src - 2 \<and> 1 \<le> y \<and> y \<le> ptr_getHeight s src - 2)
          \<longrightarrow> ptr_getPixel (SobelFilter_apply src dest s) dest x y = \<lparr>r = 0, g = 0, b = 0\<rparr>)"
proof -
  note d = two_buffers_dims [OF assms]
  have px: "ptr_getPixel (SobelFilter_apply src dest s) dest x y =
           (if 1 \<le> x \<and> x \<le> ptr_getWidth s src - 2 \<and> 1 \<le> y \<and> y \<le> ptr_getHeight s src - 2
            then gray_px (clamp (\<bar>fst (sobel_sums (deref s src) x y)\<bar>
                                 + \<bar>snd (sobel_sums (deref s src) x y)\<bar>))
            else ptr_getPixel s dest x y)"
    using ptr_getPixel_Filter_apply [OF assms, of SobelFilter x y] by (auto simp: d(1,2))
  have zero: "ptr_getPixel s dest x y = \<lparr>r = 0, g = 0, b = 0\<rparr>"
    if "uniform \<lparr>r = 0, g = 0, b = 0\<rparr> (deref s dest)"
  proof (cases "0 \<le> x \<and> x < width (deref s dest) \<and> 0 \<le> y \<and> y < height (deref s dest)")
    case True
    then show ?thesis
      using uniform_getPixel [OF d(4) that, of x y] by (simp add: ptr_getPixel_def)
  next
    case False
    then show ?thesis
      using getPixel_outside [of x "deref s dest" y] by (auto simp: ptr_getPixel_def)
  qed
  show ?thesis using px zero by simp
qed

theorem C2_sobel_writes_interior_only_witness:
  "two_buffers (store2 white3 white3) 0 1
   \<and> ptr_getPixel (SobelFilter_apply 0 1 (store2 white3 white3)) 1 1 1 = \<lparr>r = 0, g = 0, b = 0\<rparr>
   \<and> ptr_getPixel (SobelFilter_apply 0 1 (store2 white3 white3)) 1 0 2 = white
   \<and> uniform \<lparr>r = 0, g = 0, b = 0\<rparr> (deref (store2 white3 black3) 1)
   \<and> ptr_getPixel (SobelFilter_apply 0 1 (store2 white3 black3)) 1 0 2 = \<lparr>r = 0, g = 0, b = 0\<rparr>"
proof -
  have "ptr_getPixel (SobelFilter_apply 0 1 (store2 white3 white3)) 1 1 1 = \<lparr>r = 0, g = 0, b = 0\<rparr>"
    using C2_sobel_writes_interior_only [OF example_two_buffers(3), of 1 1]
    by (simp add: ptr_getWidth_def ptr_getHeight_def sobel_sums_unroll getPixel_def white3_def
        white_def gray_px_def clamp_def)
  moreover have "ptr_getPixel (SobelFilter_apply 0 1 (store2 white3 white3)) 1 0 2 = white"
    using C2_sobel_writes_interior_only [OF example_two_buffers(3), of 0 2]
    by (simp add: ptr_getPixel_def getPixel_def white3_def)
  moreover have un: "uniform \<lparr>r = 0, g = 0, b = 0\<rparr> (deref (store2 white3 black3) 1)"
    using example_uniform(3) by (simp add: black_def)
  moreover have "ptr_getPixel (SobelFilter_apply 0 1 (store2 white3 black3)) 1 0 2 = \<lparr>r = 0, g = 0, b = 0\<rparr>"
    using C2_sobel_writes_interior_only [OF example_two_buffers(1), of 0 2, THEN conjunct2] un
    by simp
  ultimately show ?thesis using example_two_buffers(3) by simp
qed


subsection \<open>The blur on a uniform buffer\<close>

text \<open>
  C3, as stated, fails: on the uniform white 3 by 3 buffer the blur writes
  143 at the corner (four of its nine taps are in range, \<open>9 * 255 div 16\<close>),
  so the destination differs from the source.
\<close>

theorem C3_blur_changes_uniform_buffer:
  "uniform white white3 \<and> two_buffers (store2 white3 black3) 0 1
   \<and> ptr_getPixel (BlurFilter_apply 0 1 (store2 white3 black3)) 1 0 0
       = \<lparr>r = 143, g = 143, b = 143\<rparr>
   \<and> ptr_getPixel (store2 white3 black3) 0 0 0 = \<lparr>r = 255, g = 255, b = 255\<rparr>
   \<and> deref (BlurFilter_apply 0 1 (store2 white3 black3)) 1 \<noteq> deref (store2 white3 black3) 0"
proof -
  have a: "ptr_getPixel (BlurFilter_apply 0 1 (store2 white3 black3)) 1 0 0
       = \<lparr>r = 143, g = 143, b = 143\<rparr>"
    using ptr_getPixel_Filter_apply [OF example_two_buffers(1), of BlurFilter 0 0]
    by (simp add: blur_sum_unroll getPixel_def white3_def white_def gray_px_def clamp_def
        divisor_def)
  have c: "ptr_getPixel (store2 white3 black3) 0 0 0 = \<lparr>r = 255, g = 255, b = 255\<rparr>"
    by (simp add: ptr_getPixel_def getPixel_def white3_def white_def)
  have "deref (BlurFilter_apply 0 1 (store2 white3 black3)) 1 \<noteq> deref (store2 white3 black3) 0"
  proof
    assume "deref (BlurFilter_apply 0 1 (store2 white3 black3)) 1 = deref (store2 white3 black3) 0"
    then have "ptr_getPixel (BlurFilter_apply 0 1 (store2 white3 black3)) 1 0 0 =
        ptr_getPixel (store2 white3 black3) 0 0 0"
      by (simp add: ptr_getPixel_def)
    then show False using a c by simp
  qed
  then show ?thesis using a c example_uniform(1) example_two_buffers(1) by simp
qed

lemma blur_sum_uniform_interior:
  assumes "Image_wf img" "uniform c img"
    and "1 \<le> x" "x \<le> width img - 2" "1 \<le> y" "y \<le> height img - 2"
  shows "blur_sum img x y = 16 * uint (r c)"
proof -
  have nb: "getPixel img (x + i) (y + j) = c"
    if "- 1 \<le> i" "i \<le> 1" "- 1 \<le> j" "j \<le> 1" for i j
    using assms(3-6) that by (intro uniform_getPixel [OF assms(1,2)]) simp_all
  show ?thesis
    using nb [of "- 1" "- 1"] nb [of 0 "- 1"] nb [of 1 "- 1"] nb [of "- 1" 0] nb [of 0 0]
      nb [of 1 0] nb [of "- 1" 1] nb [of 0 1] nb [of 1 1]
    by (simp add: blur_sum_unroll)
qed

lemma getPixel_zero_buffer:
  assumes "Image_wf img" "uniform \<lparr>r = 0, g = 0, b = 0\<rparr> img"
  shows "getPixel img x y = \<lparr>r = 0, g = 0, b = 0\<rparr>"
proof (cases "0 \<le> x \<and> x < width img \<and> 0 \<le> y \<and> y < height img")
  case True
  then show ?thesis using uniform_getPixel [OF assms, of x y] by simp
next
  case False
  then show ?thesis using getPixel_outside [of x img y] by auto
qed

text \<open>
  C3, amended. On a uniform source of colour \<open>c\<close> the blur writes the gray pixel
  of \<open>c\<close>'s red channel at every interior coordinate, which is the source pixel
  when \<open>c\<close> is gray; and the all-zero buffer is reproduced in full.
\<close>

theorem C3_blur_uniform_interior:
  assumes "two_buffers s src dest" and "uniform c (deref s src)"
  shows "(1 \<le> x \<and> x \<le> ptr_getWidth s src - 2 \<and> 1 \<le> y \<and> y \<le> ptr_getHeight s src - 2 \<longrightarrow>
            ptr_getPixel (BlurFilter_apply src dest s) dest x y = \<lparr>r = r c, g = r c, b = r c\<rparr>
          \<and> (g c = r c \<and> b c = r c \<longrightarrow>
                ptr_getPixel (BlurFilter_apply src dest s) dest x y = ptr_getPixel s src x y))
       \<and> (c = \<lparr>r = 0, g = 0, b = 0\<rparr> \<longrightarrow>
            deref (BlurFilter_apply src dest s) dest = deref s src)"
proof -
  note d = two_buffers_dims [OF assms(1)]
  from assms(1) obtain simg dimg where h: "src \<noteq> dest" "objs s src = Some simg"
    "objs s dest = Some dimg" "Image_wf simg" "Image_wf dimg"
    "width dimg = width simg" "height dimg = height simg"
    by (rule two_buffersD)
  have simg: "deref s src = simg" using h by (simp add: deref_def)
  have interior: "ptr_getPixel (BlurFilter_apply src dest s) dest x y = \<lparr>r = r c, g = r c, b = r c\<rparr>
       \<and> (g c = r c \<and> b c = r c \<longrightarrow>
                ptr_getPixel (BlurFilter_apply src dest s) dest x y = ptr_getPixel s src x y)"
    if inb: "1 \<le> x \<and> x \<le> ptr_getWidth s src - 2 \<and> 1 \<le> y \<and> y \<le> ptr_getHeight s src - 2"
  proof -
    have i: "1 \<le> x" "x \<le> width (deref s src) - 2" "1 \<le> y" "y \<le> height (deref s src) - 2"
      using inb d(1,2) by simp_all
    have "blur_sum (deref s src) x y = 16 * uint (r c)"
      by (rule blur_sum_uniform_interior [OF d(3) assms(2) i])
    then have "blur_sum (deref s src) x y sdiv divisor = uint (r c)"
      by (simp add: divisor_def sdiv_nonneg)
    moreover have "stage_writes BlurFilter (deref s src) x y" using i by simp
    ultimately have px: "ptr_getPixel (BlurFilter_apply src dest s) dest x y =
        \<lparr>r = r c, g = r c, b = r c\<rparr>"
      using ptr_getPixel_Filter_apply [OF assms(1), of BlurFilter x y] by (simp add: gray_px_def)
    have "ptr_getPixel s src x y = c"
      using uniform_getPixel [OF d(3) assms(2), of x y] i by (simp add: ptr_getPixel_def)
    then show ?thesis using px by simp
  qed
  have zero: "deref (BlurFilter_apply src dest s) dest = deref s src"
    if c: "c = \<lparr>r = 0, g = 0, b = 0\<rparr>"
  proof -
    have un: "uniform \<lparr>r = 0, g = 0, b = 0\<rparr> simg" using assms(2) c simg by simp
    have "Filter_apply BlurFilter src dest s = store_put dest (stage_result BlurFilter simg dimg) s"
      by (rule Filter_apply_result [OF h(1,2,3,5)])
    then have res: "deref (BlurFilter_apply src dest s) dest = stage_result BlurFilter simg dimg"
      by (simp add: deref_def)
    have "stage_result BlurFilter simg dimg = simg"
    proof (rule Image_eqI)
      show "Image_wf (stage_result BlurFilter simg dimg)" by (rule stage_result_wf [OF h(5)])
      show "Image_wf simg" by (rule h(4))
      show "width (stage_result BlurFilter simg dimg) = width simg" using h(6) by simp
      show "height (stage_result BlurFilter simg dimg) = height simg" using h(7) by simp
    next
      fix u v
      assume "0 \<le> u" "u < width (stage_result BlurFilter simg dimg)"
        "0 \<le> v" "v < height (stage_result BlurFilter simg dimg)"
      then have "getPixel (stage_result BlurFilter simg dimg) u v = stage_pixel BlurFilter simg u v"
        using h(6,7) by (simp add: getPixel_stage_result [OF h(5)])
      also have "\<dots> = \<lparr>r = 0, g = 0, b = 0\<rparr>"
        by (simp add: blur_sum_unroll getPixel_zero_buffer [OF h(4) un] gray_px_def clamp_def)
      finally show "getPixel (stage_result BlurFilter simg dimg) u v = getPixel simg u v"
        by (simp add: getPixel_zero_buffer [OF h(4) un])
    qed
    then show ?thesis using res simg by simp
  qed
  show ?thesis using interior zero by blast
qed

theorem C3_blur_uniform_interior_witness:
  "two_buffers (store2 white3 black3) 0 1 \<and> uniform white (deref (store2 white3 black3) 0)
   \<and> ptr_getPixel (BlurFilter_apply 0 1 (store2 white3 black3)) 1 1 1 = white
   \<and> two_buffers (store2 black3 white3) 0 1
   \<and> deref (BlurFilter_apply 0 1 (store2 black3 white3)) 1 = black3"
proof -
  have un: "uniform white (deref (store2 white3 black3) 0)"
    using example_uniform(1) by simp
  have "ptr_getPixel (BlurFilter_apply 0 1 (store2 white3 black3)) 1 1 1 = white"
    using C3_blur_uniform_interior [OF example_two_buffers(1) un, of 1 1]
    by (simp add: ptr_getWidth_def ptr_getHeight_def white3_def white_def)
  moreover have tb: "two_buffers (store2 black3 white3) 0 1"
    using two_buffers_sym [OF example_two_buffers(1)]
    by (simp add: two_buffers_def store2_def)
  moreover have "deref (BlurFilter_apply 0 1 (store2 black3 white3)) 1 = black3"
  proof -
    have "uniform black (deref (store2 black3 white3) 0)"
      using example_uniform(3) by simp
    from C3_blur_uniform_interior [OF tb this, of 0 0] show ?thesis
      by (simp add: black_def)
  qed
  ultimately show ?thesis using example_two_buffers(1) un by simp
qed

subsection \<open>Running the stages\<close>

lemma stages_fold_addStage: "stages (fold addStage fs pl) = stages pl @ fs"
  by (induction fs arbitrary: pl) (simp_all add: addStage_def)

lemma workingBuffer_fold_addStage: "workingBuffer (fold addStage fs pl) = workingBuffer pl"
  by (induction fs arbitrary: pl) (simp_all add: addStage_def)

lemma two_buffers_deref:
  assumes "two_buffers s src dest"
  shows "objs s src = Some (deref s src)" "objs s dest = Some (deref s dest)"
  using assms by (auto simp: deref_def elim!: two_buffersD)

lemma execute_stages_run:
  assumes "two_buffers s wb bb"
  shows "\<exists>wb' bb' s'. execute_stages fs wb bb s = (wb', bb', s')
           \<and> two_buffers s' wb' bb' \<and> {wb', bb'} = {wb, bb}
           \<and> objs s' wb' = Some (fst (run_images fs (deref s wb) (deref s bb)))
           \<and> objs s' bb' = Some (snd (run_images fs (deref s wb) (deref s bb)))
           \<and> (\<forall>a. a \<noteq> wb \<and> a \<noteq> bb \<longrightarrow> objs s' a = objs s a)
           \<and> next_addr s' = next_addr s"
  using assms
proof (induction fs arbitrary: s wb bb)
  case Nil
  then show ?case by (simp add: two_buffers_deref)
next
  case (Cons f fs)
  let ?s1 = "Filter_apply f wb bb s"
  from Cons.prems obtain wimg bimg where h: "wb \<noteq> bb" "objs s wb = Some wimg"
    "objs s bb = Some bimg" "Image_wf wimg" "Image_wf bimg"
    "width bimg = width wimg" "height bimg = height wimg"
    by (rule two_buffersD)
  have s1: "?s1 = store_put bb (stage_result f wimg bimg) s"
    by (rule Filter_apply_result [OF h(1,2,3,5)])
  have tb: "two_buffers ?s1 bb wb"
    by (rule Filter_apply_two_buffers [OF Cons.prems])
  have d1: "deref ?s1 bb = stage_result f wimg bimg" "deref ?s1 wb = wimg"
    "deref s wb = wimg" "deref s bb = bimg"
    using h by (simp_all add: s1 deref_def)
  from Cons.IH [OF tb] obtain wb' bb' s' where r: "execute_stages fs bb wb ?s1 = (wb', bb', s')"
    "two_buffers s' wb' bb'" "{wb', bb'} = {bb, wb}"
    "objs s' wb' = Some (fst (run_images fs (deref ?s1 bb) (deref ?s1 wb)))"
    "objs s' bb' = Some (snd (run_images fs (deref ?s1 bb) (deref ?s1 wb)))"
    "\<forall>a. a \<noteq> bb \<and> a \<noteq> wb \<longrightarrow> objs s' a = objs ?s1 a"
    "next_addr s' = next_addr ?s1"
    by blast
  have "\<forall>a. a \<noteq> wb \<and> a \<noteq> bb \<longrightarrow> objs s' a = objs s a"
    using r(6) by (simp add: s1)
  moreover have "next_addr s' = next_addr s" using r(7) by (simp add: s1)
  moreover have "{wb', bb'} = {wb, bb}" using r(3) by auto
  ultimately show ?case
    using r(1,2,4,5) by (simp add: d1)
qed

lemma store_ok_live: "store_ok s \<Longrightarrow> objs s a = Some img \<Longrightarrow> a < next_addr s"
  by (rule ccontr) (simp add: store_ok_def not_less)

text \<open>The whole run of \<open>main\<close>'s calls, in terms of the two images.\<close>

lemma run_pipeline_result:
  assumes ok: "store_ok s" and live: "objs s input = Some img" and wf: "Image_wf img"
    and fits: "width img * height img \<le> INT_MAX"
  shows "\<exists>res s2. run_pipeline mem fs input s = Inr (res, s2)
           \<and> objs s2 res =
               Some (fst (run_images fs img (raw_image (width img) (height img) mem)))
           \<and> res \<noteq> input \<and> objs s2 input = Some img"
proof -
  let ?w = "next_addr s"
  let ?bb = "Suc (next_addr s)"
  let ?s1 = "s\<lparr>objs := (objs s)(?w \<mapsto> img), next_addr := Suc ?w\<rparr>"
  let ?bimg = "raw_image (width img) (height img) mem"
  let ?s2 = "?s1\<lparr>objs := (objs ?s1)(?bb \<mapsto> ?bimg), next_addr := Suc ?bb\<rparr>"
  have lt: "input < ?w" by (rule store_ok_live [OF ok live])
  have cp: "Image_copy img = Inr img" by (rule Image_copy_wf [OF wf fits])
  have dims: "0 \<le> width img" "0 \<le> height img" using wf by (simp_all add: Image_wf_def)
  note new = Image_new_ok [OF dims fits, of mem]
  have pn: "Pipeline_new input s = Inr (\<lparr>stages = [], workingBuffer = ?w\<rparr>, ?s1)"
    using live by (simp add: Pipeline_new_def new_Image_def deref_def cp)
  have tb: "two_buffers ?s2 ?w ?bb"
    using wf new(2) by (simp add: two_buffers_def) (simp add: raw_image_def)
  from execute_stages_run [OF tb, of fs] obtain wb' bb' s' where
    r: "execute_stages fs ?w ?bb ?s2 = (wb', bb', s')"
    "two_buffers s' wb' bb'" "{wb', bb'} = {?w, ?bb}"
    "objs s' wb' = Some (fst (run_images fs (deref ?s2 ?w) (deref ?s2 ?bb)))"
    "\<forall>a. a \<noteq> ?w \<and> a \<noteq> ?bb \<longrightarrow> objs s' a = objs ?s2 a"
    by blast
  have ex: "execute mem (fold addStage fs \<lparr>stages = [], workingBuffer = ?w\<rparr>) ?s1 =
      Inr (fold addStage fs \<lparr>stages = [], workingBuffer = ?w\<rparr>\<lparr>workingBuffer := wb'\<rparr>,
           delete_Image bb' s')"
    using r(1)
    by (simp add: execute_def new_Image_def stages_fold_addStage workingBuffer_fold_addStage
        ptr_getWidth_def ptr_getHeight_def deref_def new(1))
  have rp: "run_pipeline mem fs input s = Inr (wb', delete_Image bb' s')"
    by (simp add: run_pipeline_def pn ex getResult_def)
  have ne: "wb' \<noteq> bb'" using r(2) by (simp add: two_buffers_def)
  have inp: "input \<noteq> wb'" "input \<noteq> bb'" "input \<noteq> ?w" "input \<noteq> ?bb"
    using lt r(3) by (auto simp: doubleton_eq_iff)
  have "objs (delete_Image bb' s') wb' = Some (fst (run_images fs img ?bimg))"
    using r(4) ne by (simp add: delete_Image_def deref_def)
  moreover have "objs (delete_Image bb' s') input = Some img"
    using r(5) inp live by (simp add: delete_Image_def)
  ultimately show ?thesis using rp inp(1) by simp
qed

lemma run_pipeline_projections:
  assumes "run_pipeline mem fs input s = Inr (res, s2)"
  shows "\<not> isl (run_pipeline mem fs input s)"
    "result_ptr (run_pipeline mem fs input s) = res"
    "result_store (run_pipeline mem fs input s) = s2"
  using assms by (simp_all add: result_ptr_def result_store_def)

subsection \<open>The stages against the specification's transforms\<close>

lemma spec_stage_shape [simp]:
  "width (spec_stage f src) = width src" "height (spec_stage f src) = height src"
  by (simp_all add: spec_stage_def)

lemma spec_stage_wf: "Image_wf src \<Longrightarrow> Image_wf (spec_stage f src)"
  by (simp add: Image_wf_def spec_stage_def)

lemma getPixel_spec_stage:
  assumes "Image_wf src"
  shows "getPixel (spec_stage f src) x y =
     (if 0 \<le> x \<and> x < width src \<and> 0 \<le> y \<and> y < height src then spec_pixel f src x y
      else \<lparr>r = 0, g = 0, b = 0\<rparr>)"
proof (cases "0 \<le> x \<and> x < width src \<and> 0 \<le> y \<and> y < height src")
  case True
  then have inb: "0 \<le> x" "x < width src" "0 \<le> y" "y < height src" by simp_all
  note ix = index_in_block [OF assms inb]
  have "nat (y * width src + x) < nat (width src * height src)"
    using ix(1) assms by (simp add: Image_wf_def)
  then have "data (spec_stage f src) ! nat (y * width src + x) = spec_pixel f src x y"
    using ix by (simp add: spec_stage_def)
  then show ?thesis using True by (simp add: getPixel_def)
next
  case False
  then show ?thesis using getPixel_outside [of x "spec_stage f src" y] by auto
qed

lemma blur_sum_nonneg: "0 \<le> blur_sum img x y"
  by (simp add: blur_sum_unroll)

text \<open>The sums of the two convolutions stay far inside the range of a 32-bit \<^verbatim>\<open>int\<close>.\<close>

lemma uint_u8_le: "uint (v :: u8) \<le> 255"
  using uint_bounded [of v] by simp

lemma blur_sum_le: "blur_sum img x y \<le> 4080"
proof -
  note le = uint_u8_le [of "r (getPixel img (x - 1) (y - 1))"]
    uint_u8_le [of "r (getPixel img x (y - 1))"] uint_u8_le [of "r (getPixel img (x + 1) (y - 1))"]
    uint_u8_le [of "r (getPixel img (x - 1) y)"] uint_u8_le [of "r (getPixel img x y)"]
    uint_u8_le [of "r (getPixel img (x + 1) y)"] uint_u8_le [of "r (getPixel img (x - 1) (y + 1))"]
    uint_u8_le [of "r (getPixel img x (y + 1))"] uint_u8_le [of "r (getPixel img (x + 1) (y + 1))"]
  show ?thesis unfolding blur_sum_unroll using le by linarith
qed

lemma sobel_sums_range:
  "\<bar>fst (sobel_sums img x y)\<bar> \<le> 1020" "\<bar>snd (sobel_sums img x y)\<bar> \<le> 1020"
proof -
  note le = uint_u8_le [of "r (getPixel img (x - 1) (y - 1))"]
    uint_u8_le [of "r (getPixel img x (y - 1))"] uint_u8_le [of "r (getPixel img (x + 1) (y - 1))"]
    uint_u8_le [of "r (getPixel img (x - 1) y)"]
    uint_u8_le [of "r (getPixel img (x + 1) y)"] uint_u8_le [of "r (getPixel img (x - 1) (y + 1))"]
    uint_u8_le [of "r (getPixel img x (y + 1))"] uint_u8_le [of "r (getPixel img (x + 1) (y + 1))"]
  note ge = uint_ge_0 [of "r (getPixel img (x - 1) (y - 1))"]
    uint_ge_0 [of "r (getPixel img x (y - 1))"] uint_ge_0 [of "r (getPixel img (x + 1) (y - 1))"]
    uint_ge_0 [of "r (getPixel img (x - 1) y)"]
    uint_ge_0 [of "r (getPixel img (x + 1) y)"] uint_ge_0 [of "r (getPixel img (x - 1) (y + 1))"]
    uint_ge_0 [of "r (getPixel img x (y + 1))"] uint_ge_0 [of "r (getPixel img (x + 1) (y + 1))"]
  show "\<bar>fst (sobel_sums img x y)\<bar> \<le> 1020"
    unfolding sobel_sums_unroll fst_conv using le ge by linarith
  show "\<bar>snd (sobel_sums img x y)\<bar> \<le> 1020"
    unfolding sobel_sums_unroll snd_conv using le ge by linarith
qed

lemma stage_pixel_spec:
  assumes "f = SobelFilter \<longrightarrow> 1 \<le> x \<and> x \<le> width src - 2 \<and> 1 \<le> y \<and> y \<le> height src - 2"
  shows "stage_pixel f src x y = spec_pixel f src x y"
proof (cases f)
  case GrayscaleFilter
  then show ?thesis
    by (simp add: gray_intensity_def spec_gray_value_def drop_bit_eq_div)
next
  case BlurFilter
  have "blur_sum src x y sdiv divisor = spec_blur_value src x y"
    unfolding divisor_def sdiv_nonneg [OF blur_sum_nonneg, of 16, simplified]
    by (simp add: blur_sum_unroll spec_blur_value_def kernel_def)
  then show ?thesis using BlurFilter by simp
next
  case SobelFilter
  have "\<bar>fst (sobel_sums src x y)\<bar> + \<bar>snd (sobel_sums src x y)\<bar> = spec_sobel_value src x y"
    by (simp add: sobel_sums_unroll spec_sobel_value_def gx_def gy_def)
  then show ?thesis using SobelFilter assms by simp
qed

lemma stage_result_spec:
  assumes "f \<noteq> SobelFilter" "Image_wf simg" "Image_wf dimg"
    "width dimg = width simg" "height dimg = height simg"
  shows "stage_result f simg dimg = spec_stage f simg"
proof (rule Image_eqI)
  show "Image_wf (stage_result f simg dimg)" by (rule stage_result_wf [OF assms(3)])
  show "Image_wf (spec_stage f simg)" by (rule spec_stage_wf [OF assms(2)])
  show "width (stage_result f simg dimg) = width (spec_stage f simg)" using assms(4) by simp
  show "height (stage_result f simg dimg) = height (spec_stage f simg)" using assms(5) by simp
next
  fix x y
  assume "0 \<le> x" "x < width (stage_result f simg dimg)"
    "0 \<le> y" "y < height (stage_result f simg dimg)"
  then have inb: "0 \<le> x" "x < width simg" "0 \<le> y" "y < height simg"
    using assms(4,5) by simp_all
  have "stage_writes f simg x y" using inb assms(1) by (cases f) simp_all
  then have "getPixel (stage_result f simg dimg) x y = stage_pixel f simg x y"
    using inb assms(4,5) by (simp add: getPixel_stage_result [OF assms(3)])
  also have "\<dots> = spec_pixel f simg x y"
    using assms(1) by (intro stage_pixel_spec) simp
  finally show "getPixel (stage_result f simg dimg) x y = getPixel (spec_stage f simg) x y"
    using inb by (simp add: getPixel_spec_stage [OF assms(2)])
qed

lemma spec_pipeline_simps [simp]:
  "spec_pipeline [] img = img"
  "spec_pipeline (f # fs) img = spec_pipeline fs (spec_stage f img)"
  "spec_pipeline (fs @ [f]) img = spec_stage f (spec_pipeline fs img)"
  by (simp_all add: spec_pipeline_def)

lemma spec_pipeline_shape [simp]:
  "width (spec_pipeline fs img) = width img" "height (spec_pipeline fs img) = height img"
  by (induction fs arbitrary: img) simp_all

lemma spec_pipeline_wf: "Image_wf img \<Longrightarrow> Image_wf (spec_pipeline fs img)"
  by (induction fs arbitrary: img) (simp_all add: spec_stage_wf)

lemma run_images_snoc:
  "run_images (fs @ [f]) wimg bimg =
     (stage_result f (fst (run_images fs wimg bimg)) (snd (run_images fs wimg bimg)),
      fst (run_images fs wimg bimg))"
  by (induction fs arbitrary: wimg bimg) simp_all

lemma run_images_spec:
  assumes "SobelFilter \<notin> set fs" "Image_wf wimg" "Image_wf bimg"
    "width bimg = width wimg" "height bimg = height wimg"
  shows "fst (run_images fs wimg bimg) = spec_pipeline fs wimg
       \<and> snd (run_images fs wimg bimg) =
           (if fs = [] then bimg else spec_pipeline (butlast fs) wimg)"
  using assms
proof (induction fs arbitrary: wimg bimg)
  case Nil
  then show ?case by simp
next
  case (Cons f fs)
  have f: "f \<noteq> SobelFilter" and fs: "SobelFilter \<notin> set fs" using Cons.prems(1) by auto
  have st: "stage_result f wimg bimg = spec_stage f wimg"
    by (rule stage_result_spec [OF f Cons.prems(2-5)])
  have "fst (run_images fs (spec_stage f wimg) wimg) = spec_pipeline fs (spec_stage f wimg)
       \<and> snd (run_images fs (spec_stage f wimg) wimg) =
           (if fs = [] then wimg else spec_pipeline (butlast fs) (spec_stage f wimg))"
    by (rule Cons.IH [OF fs spec_stage_wf [OF Cons.prems(2)] Cons.prems(2)]) simp_all
  then show ?case by (simp add: st)
qed


subsection \<open>The pipeline\<close>

lemma example_fits: "width white3 * height white3 \<le> INT_MAX"
  "width tint3 * height tint3 \<le> INT_MAX"
  by (simp_all add: white3_def tint3_def INT_MAX_def)

lemma run_pipeline_no_stage:
  assumes ok: "store_ok s" and live: "objs s input = Some img" and built: "Image_built img"
  shows "\<exists>s2. run_pipeline mem [] input s = Inr (next_addr s, s2)
           \<and> objs s2 (next_addr s) = Some img \<and> objs s2 input = Some img
           \<and> next_addr s \<noteq> input"
proof -
  let ?w = "next_addr s"
  let ?s1 = "s\<lparr>objs := (objs s)(?w \<mapsto> img), next_addr := Suc ?w\<rparr>"
  have lt: "input < ?w" by (rule store_ok_live [OF ok live])
  have cp: "Image_copy img = Inr img" by (rule Image_copy_built [OF built])
  have nn: "0 \<le> int32_mul (width img) (height img)" using built by (simp add: Image_built_def)
  have pn: "Pipeline_new input s = Inr (\<lparr>stages = [], workingBuffer = ?w\<rparr>, ?s1)"
    using live by (simp add: Pipeline_new_def new_Image_def deref_def cp)
  obtain bimg where new: "Image_new (width img) (height img) mem = Inr bimg"
    using nn by (simp add: Image_new_def)
  have ex: "execute mem \<lparr>stages = [], workingBuffer = ?w\<rparr> ?s1 =
      Inr (\<lparr>stages = [], workingBuffer = ?w\<rparr>,
           delete_Image (Suc ?w) (?s1\<lparr>objs := (objs ?s1)(Suc ?w \<mapsto> bimg),
                                       next_addr := Suc (Suc ?w)\<rparr>))"
    by (simp add: execute_def new_Image_def ptr_getWidth_def ptr_getHeight_def deref_def new)
  show ?thesis
    using lt live by (simp add: run_pipeline_def pn ex getResult_def delete_Image_def)
qed

text \<open>
  C9. A pipeline built from an input image that a constructor built (its block
  has the 32-bit product of its dimensions many pixels), with no stage
  appended, returns from its constructor and from \<open>execute\<close> and gives a live
  result buffer equal by value to the deep copy of the input, which equals
  the input; the result is another object than the input; and the input
  object is unchanged by the construction and by the execution, for a
  well-formed input whatever stages were appended.
\<close>

theorem C9_zero_stage_pipeline:
  assumes "store_ok s" and "objs s input = Some img" and "Image_built img"
  shows "\<not> isl (run_pipeline mem [] input s)
       \<and> objs (result_store (run_pipeline mem [] input s))
               (result_ptr (run_pipeline mem [] input s))
           = Some (projr (Image_copy img))
       \<and> Image_copy img = Inr img
       \<and> result_ptr (run_pipeline mem [] input s) \<noteq> input
       \<and> \<not> isl (Pipeline_new input s)
       \<and> objs (snd (projr (Pipeline_new input s))) input = Some img
       \<and> objs (result_store (run_pipeline mem [] input s)) input = Some img
       \<and> (Image_wf img \<longrightarrow>
            \<not> isl (run_pipeline mem fs input s)
          \<and> objs (result_store (run_pipeline mem fs input s)) input = Some img)"
proof -
  have cp: "Image_copy img = Inr img" by (rule Image_copy_built [OF assms(3)])
  from run_pipeline_no_stage [OF assms, of mem] obtain s2 where
    r0: "run_pipeline mem [] input s = Inr (next_addr s, s2)"
    "objs s2 (next_addr s) = Some img" "objs s2 input = Some img" "next_addr s \<noteq> input"
    by blast
  note p0 = run_pipeline_projections [OF r0(1)]
  have "input < next_addr s" by (rule store_ok_live [OF assms(1,2)])
  then have e: "\<not> isl (Pipeline_new input s)"
    "objs (snd (projr (Pipeline_new input s))) input = Some img"
    using assms(2) by (simp_all add: Pipeline_new_def new_Image_def deref_def cp)
  have any: "\<not> isl (run_pipeline mem fs input s)
          \<and> objs (result_store (run_pipeline mem fs input s)) input = Some img"
    if wf: "Image_wf img"
  proof -
    have fits: "width img * height img \<le> INT_MAX"
      using Image_wf_built_iff [of img] wf assms(3) by simp
    from run_pipeline_result [OF assms(1,2) wf fits, of mem fs] obtain res' s2' where
      r1: "run_pipeline mem fs input s = Inr (res', s2')" "objs s2' input = Some img"
      by auto
    show ?thesis using r1(2) by (simp add: run_pipeline_projections [OF r1(1)])
  qed
  show ?thesis using r0(2,3,4) e any by (simp add: p0 cp)
qed

theorem C9_zero_stage_pipeline_witness:
  "store_ok (input_store tint3) \<and> objs (input_store tint3) 0 = Some tint3
   \<and> Image_built tint3 \<and> Image_wf tint3
   \<and> \<not> isl (run_pipeline zero_mem [] 0 (input_store tint3))
   \<and> objs (result_store (run_pipeline zero_mem [] 0 (input_store tint3)))
          (result_ptr (run_pipeline zero_mem [] 0 (input_store tint3))) = Some tint3
   \<and> result_ptr (run_pipeline zero_mem [] 0 (input_store tint3)) \<noteq> 0
   \<and> objs (result_store (run_pipeline zero_mem main_stages 0 (input_store tint3))) 0 = Some tint3"
proof -
  have built: "Image_built tint3"
    using Image_wf_built_iff [of tint3] example_wf(3) example_fits(2) by simp
  show ?thesis
    using C9_zero_stage_pipeline [OF input_store_ok built, of zero_mem main_stages]
      input_store_ok [of tint3] example_wf(3) built
    by simp
qed

text \<open>
  C1, as stated, fails on the pipeline of \<open>main\<close>. On the white 3 by 3 image,
  even with a zero-filled back buffer, the corner of the result is white: the
  Sobel stage wrote into the buffer that held the grayscale stage's output and
  left its ring as it was. The composition of the three transforms has the
  zero pixel there.
\<close>

theorem C1_result_holds_intermediate_output:
  "store_ok (input_store white3) \<and> objs (input_store white3) 0 = Some white3 \<and> Image_wf white3
   \<and> \<not> isl (run_pipeline zero_mem main_stages 0 (input_store white3))
   \<and> getPixel (deref (result_store (run_pipeline zero_mem main_stages 0 (input_store white3)))
                      (result_ptr (run_pipeline zero_mem main_stages 0 (input_store white3)))) 0 0
       = \<lparr>r = 255, g = 255, b = 255\<rparr>
   \<and> getPixel (spec_pipeline main_stages (projr (Image_copy white3))) 0 0
       = \<lparr>r = 0, g = 0, b = 0\<rparr>
   \<and> deref (result_store (run_pipeline zero_mem main_stages 0 (input_store white3)))
            (result_ptr (run_pipeline zero_mem main_stages 0 (input_store white3)))
       \<noteq> spec_pipeline main_stages (projr (Image_copy white3))"
proof -
  let ?run = "run_pipeline zero_mem main_stages 0 (input_store white3)"
  let ?res = "deref (result_store ?run) (result_ptr ?run)"
  let ?b = "raw_image 3 3 zero_mem"
  let ?g = "stage_result GrayscaleFilter white3 ?b"
  have wfb: "Image_wf ?b" by (simp add: Image_wf_def raw_image_def)
  have wfg: "Image_wf ?g" by (rule stage_result_wf [OF wfb])
  have cp: "Image_copy white3 = Inr white3"
    by (rule Image_copy_wf [OF example_wf(1) example_fits(1)])
  have dims: "width white3 = 3" "height white3 = 3" "width ?b = 3" "height ?b = 3"
    by (simp_all add: white3_def raw_image_def)
  from run_pipeline_result [OF input_store_ok example_wf(1) example_fits(1),
      of zero_mem main_stages]
  obtain res s2 where r: "?run = Inr (res, s2)"
    "objs s2 res = Some (fst (run_images main_stages white3 ?b))"
    by (auto simp: dims)
  note pr = run_pipeline_projections [OF r(1)]
  have "?res = fst (run_images main_stages white3 ?b)"
    using r(2) by (simp add: pr deref_def)
  then have res: "?res = stage_result SobelFilter (stage_result BlurFilter ?g white3) ?g"
    by (simp add: main_stages_def)
  have "getPixel ?res 0 0 = getPixel ?g 0 0"
    unfolding res by (simp add: getPixel_stage_result [OF wfg] dims)
  also have "\<dots> = stage_pixel GrayscaleFilter white3 0 0"
    by (simp add: getPixel_stage_result [OF wfb] dims)
  also have "\<dots> = \<lparr>r = 255, g = 255, b = 255\<rparr>"
    by (simp add: getPixel_def white3_def white_def gray_intensity_def gray_px_def clamp_def)
  finally have a: "getPixel ?res 0 0 = \<lparr>r = 255, g = 255, b = 255\<rparr>" .
  have "Image_wf (spec_pipeline [GrayscaleFilter, BlurFilter] white3)"
    by (rule spec_pipeline_wf [OF example_wf(1)])
  then have c: "getPixel (spec_pipeline main_stages (projr (Image_copy white3))) 0 0
      = \<lparr>r = 0, g = 0, b = 0\<rparr>"
    using getPixel_spec_stage [of "spec_pipeline [GrayscaleFilter, BlurFilter] white3" SobelFilter 0 0]
    by (simp add: main_stages_def cp dims)
  have "?res \<noteq> spec_pipeline main_stages (projr (Image_copy white3))"
  proof
    assume "?res = spec_pipeline main_stages (projr (Image_copy white3))"
    then have "getPixel ?res 0 0 =
        getPixel (spec_pipeline main_stages (projr (Image_copy white3))) 0 0"
      by simp
    then show False using a c by simp
  qed
  then show ?thesis using a c pr(1) input_store_ok [of white3] example_wf(1) by simp
qed

lemma interior_stage_writes: "stage_writes SobelFilter img x y \<longleftrightarrow> interior img x y"
  by (auto simp: interior_def)

text \<open>
  The result against the specification's composition: equal for grayscale and
  blur stages; with a Sobel stage last, equal in the interior, and elsewhere
  what the back buffer of that stage held.
\<close>

lemma run_pipeline_spec:
  assumes "store_ok s" and "objs s input = Some img" and "Image_wf img"
    and "width img * height img \<le> INT_MAX" and "SobelFilter \<notin> set fs"
  shows "\<not> isl (run_pipeline mem fs input s)"
    and "objs (result_store (run_pipeline mem fs input s))
              (result_ptr (run_pipeline mem fs input s)) = Some (spec_pipeline fs img)"
    and "\<not> isl (run_pipeline mem (fs @ [SobelFilter]) input s)"
    and "getPixel (deref (result_store (run_pipeline mem (fs @ [SobelFilter]) input s))
                         (result_ptr (run_pipeline mem (fs @ [SobelFilter]) input s))) x y
           = (if interior img x y
              then getPixel (spec_pipeline (fs @ [SobelFilter]) img) x y
              else getPixel (if fs = [] then raw_image (width img) (height img) mem
                             else spec_pipeline (butlast fs) img) x y)"
proof -
  let ?b = "raw_image (width img) (height img) mem"
  have wfb: "Image_wf ?b" using assms(3) by (simp add: Image_wf_def raw_image_def)
  have dimb: "width ?b = width img" "height ?b = height img" by (simp_all add: raw_image_def)
  have run: "fst (run_images fs img ?b) = spec_pipeline fs img"
    "snd (run_images fs img ?b) = (if fs = [] then ?b else spec_pipeline (butlast fs) img)"
    using run_images_spec [OF assms(5,3) wfb dimb] by simp_all
  define stale where "stale = (if fs = [] then ?b else spec_pipeline (butlast fs) img)"
  have wfs: "Image_wf stale" using wfb spec_pipeline_wf [OF assms(3)] by (simp add: stale_def)
  have dims: "width stale = width img" "height stale = height img"
    using dimb by (simp_all add: stale_def)
  have wfp: "Image_wf (spec_pipeline fs img)" by (rule spec_pipeline_wf [OF assms(3)])
  from run_pipeline_result [OF assms(1-4), of mem fs] obtain res s2 where
    r: "run_pipeline mem fs input s = Inr (res, s2)"
    "objs s2 res = Some (fst (run_images fs img ?b))"
    by auto
  note pr = run_pipeline_projections [OF r(1)]
  show "\<not> isl (run_pipeline mem fs input s)" by (rule pr(1))
  show "objs (result_store (run_pipeline mem fs input s))
             (result_ptr (run_pipeline mem fs input s)) = Some (spec_pipeline fs img)"
    using r(2) by (simp add: pr run)
  from run_pipeline_result [OF assms(1-4), of mem "fs @ [SobelFilter]"] obtain res' s2' where
    r': "run_pipeline mem (fs @ [SobelFilter]) input s = Inr (res', s2')"
    "objs s2' res' = Some (fst (run_images (fs @ [SobelFilter]) img ?b))"
    by auto
  note pr' = run_pipeline_projections [OF r'(1)]
  show "\<not> isl (run_pipeline mem (fs @ [SobelFilter]) input s)" by (rule pr'(1))
  have "deref (result_store (run_pipeline mem (fs @ [SobelFilter]) input s))
              (result_ptr (run_pipeline mem (fs @ [SobelFilter]) input s))
        = fst (run_images (fs @ [SobelFilter]) img ?b)"
    using r'(2) by (simp add: pr' deref_def)
  also have "\<dots> = stage_result SobelFilter (spec_pipeline fs img) stale"
    by (simp add: run_images_snoc run stale_def)
  finally have res: "deref (result_store (run_pipeline mem (fs @ [SobelFilter]) input s))
              (result_ptr (run_pipeline mem (fs @ [SobelFilter]) input s))
        = stage_result SobelFilter (spec_pipeline fs img) stale" .
  have px: "getPixel (stage_result SobelFilter (spec_pipeline fs img) stale) x y =
      (if interior img x y
       then getPixel (spec_pipeline (fs @ [SobelFilter]) img) x y
       else getPixel stale x y)"
  proof (cases "interior img x y")
    case True
    then have inb: "0 \<le> x \<and> x < width img \<and> 0 \<le> y \<and> y < height img"
      by (auto simp: interior_def)
    have sw: "stage_writes SobelFilter (spec_pipeline fs img) x y"
      using True by (auto simp: interior_def)
    have "stage_pixel SobelFilter (spec_pipeline fs img) x y =
          spec_pixel SobelFilter (spec_pipeline fs img) x y"
      using True by (intro stage_pixel_spec) (simp add: interior_def)
    then show ?thesis
      using True inb dims sw
      by (simp add: getPixel_stage_result [OF wfs] getPixel_spec_stage [OF wfp]
          del: stage_pixel.simps spec_pixel.simps stage_writes.simps)
  next
    case False
    then have nw: "\<not> stage_writes SobelFilter (spec_pipeline fs img) x y"
      by (auto simp: interior_def)
    show ?thesis
    proof (cases "0 \<le> x \<and> x < width stale \<and> 0 \<le> y \<and> y < height stale")
      case True
      then show ?thesis using False nw
        by (simp add: getPixel_stage_result [OF wfs] del: stage_writes.simps)
    next
      case oob: False
      then have "getPixel stale x y = \<lparr>r = 0, g = 0, b = 0\<rparr>"
        using getPixel_outside [of x stale y] by auto
      then show ?thesis using False oob nw
        by (simp add: getPixel_stage_result [OF wfs] del: stage_writes.simps)
    qed
  qed
  show "getPixel (deref (result_store (run_pipeline mem (fs @ [SobelFilter]) input s))
                        (result_ptr (run_pipeline mem (fs @ [SobelFilter]) input s))) x y
           = (if interior img x y
              then getPixel (spec_pipeline (fs @ [SobelFilter]) img) x y
              else getPixel (if fs = [] then raw_image (width img) (height img) mem
                             else spec_pipeline (butlast fs) img) x y)"
    using px by (simp add: res stale_def)
qed

text \<open>
  C1, amended. For a well-formed input (its \<open>width * height\<close> within \<open>INT_MAX\<close>)
  and stages that are all grayscale or blur filters, the run returns and the
  result buffer is live and equal by value to the composition of the stages'
  transforms, in append order, on the deep copy of the input. With a Sobel
  stage appended last to such a sequence, the result agrees with the
  composition at every interior coordinate.
\<close>

theorem C1_pipeline_composes:
  assumes "store_ok s" and "objs s input = Some img" and "Image_wf img"
    and "width img * height img \<le> INT_MAX" and "SobelFilter \<notin> set fs"
  shows "\<not> isl (run_pipeline mem fs input s)
       \<and> Image_copy img = Inr img
       \<and> objs (result_store (run_pipeline mem fs input s))
               (result_ptr (run_pipeline mem fs input s))
           = Some (spec_pipeline fs (projr (Image_copy img)))
       \<and> \<not> isl (run_pipeline mem (fs @ [SobelFilter]) input s)
       \<and> (interior img x y \<longrightarrow>
            getPixel (deref (result_store (run_pipeline mem (fs @ [SobelFilter]) input s))
                            (result_ptr (run_pipeline mem (fs @ [SobelFilter]) input s))) x y
              = getPixel (spec_pipeline (fs @ [SobelFilter]) (projr (Image_copy img))) x y)"
  using run_pipeline_spec(1-3) [OF assms, of mem] run_pipeline_spec(4) [OF assms, of mem x y]
    Image_copy_wf [OF assms(3,4)]
  by simp

theorem C1_pipeline_composes_witness:
  "store_ok (input_store tint3) \<and> objs (input_store tint3) 0 = Some tint3 \<and> Image_wf tint3
   \<and> width tint3 * height tint3 \<le> INT_MAX
   \<and> SobelFilter \<notin> set [GrayscaleFilter, BlurFilter] \<and> interior tint3 1 1
   \<and> \<not> isl (run_pipeline white_mem [GrayscaleFilter, BlurFilter] 0 (input_store tint3))
   \<and> objs (result_store (run_pipeline white_mem [GrayscaleFilter, BlurFilter] 0 (input_store tint3)))
          (result_ptr (run_pipeline white_mem [GrayscaleFilter, BlurFilter] 0 (input_store tint3)))
       = Some (spec_pipeline [GrayscaleFilter, BlurFilter] (projr (Image_copy tint3)))
   \<and> getPixel (deref (result_store (run_pipeline white_mem main_stages 0 (input_store tint3)))
                      (result_ptr (run_pipeline white_mem main_stages 0 (input_store tint3)))) 1 1
       = getPixel (spec_pipeline main_stages (projr (Image_copy tint3))) 1 1"
proof -
  have no: "SobelFilter \<notin> set [GrayscaleFilter, BlurFilter]" by simp
  have ms: "main_stages = [GrayscaleFilter, BlurFilter] @ [SobelFilter]"
    by (simp add: main_stages_def)
  have int: "interior tint3 1 1" by (simp add: interior_def tint3_def)
  note th = C1_pipeline_composes [OF input_store_ok example_wf(3) example_fits(2) no,
      of white_mem 1 1]
  have "\<not> isl (run_pipeline white_mem [GrayscaleFilter, BlurFilter] 0 (input_store tint3))"
    using th by blast
  moreover have "objs (result_store (run_pipeline white_mem [GrayscaleFilter, BlurFilter] 0 (input_store tint3)))
          (result_ptr (run_pipeline white_mem [GrayscaleFilter, BlurFilter] 0 (input_store tint3)))
       = Some (spec_pipeline [GrayscaleFilter, BlurFilter] (projr (Image_copy tint3)))"
    using th by blast
  moreover have "getPixel (deref (result_store (run_pipeline white_mem main_stages 0 (input_store tint3)))
                      (result_ptr (run_pipeline white_mem main_stages 0 (input_store tint3)))) 1 1
       = getPixel (spec_pipeline main_stages (projr (Image_copy tint3))) 1 1"
    using th int unfolding ms [symmetric] by blast
  ultimately show ?thesis
    using input_store_ok [of tint3] example_wf(3) example_fits(2) no int by blast
qed

end
